theory Spec2Isabelle
  imports Main "HOL-Library.Multiset"
begin

section \<open>The consistent-snapshot instance collection of orthanc_api_client\<close>

text \<open>
  This theory embeds the class \<open>InstancesSet\<close> of
  \<open>orthanc_api_client/instances_set.py\<close>. Identifiers are Python strings, the
  private fields \<open>_all_instances_ids\<close> and \<open>_by_series\<close> lose their leading
  underscore, and every method that mutates \<open>self\<close> returns the object after the call.
  An exception is a value \<open>Inl e\<close> of the result.
\<close>

subsection \<open>Exceptions\<close>

datatype error =
    KeyError
  | ValueError
  | ResourceNotFound
  | Failure string

subsection \<open>Python containers\<close>

text \<open>
  A Python \<open>dict\<close> iterates in insertion order: assigning to a key that is present
  keeps the key's position, assigning to a new key appends it. It is a list of
  key/value pairs here.
\<close>

type_synonym ('k, 'v) dict = "('k \<times> 'v) list"

definition dict_keys :: "('k, 'v) dict \<Rightarrow> 'k list" where
  "dict_keys d = map fst d"

definition dict_contains :: "('k, 'v) dict \<Rightarrow> 'k \<Rightarrow> bool" where
  "dict_contains d k = (k \<in> set (dict_keys d))"

fun dict_getitem :: "('k, 'v) dict \<Rightarrow> 'k \<Rightarrow> error + 'v" where
  "dict_getitem [] k = Inl KeyError"
| "dict_getitem ((k', v') # d) k = (if k' = k then Inr v' else dict_getitem d k)"

fun dict_setitem :: "('k, 'v) dict \<Rightarrow> 'k \<Rightarrow> 'v \<Rightarrow> ('k, 'v) dict" where
  "dict_setitem [] k v = [(k, v)]"
| "dict_setitem ((k', v') # d) k v =
     (if k' = k then (k, v) # d else (k', v') # dict_setitem d k v)"

fun dict_delitem :: "('k, 'v) dict \<Rightarrow> 'k \<Rightarrow> error + ('k, 'v) dict" where
  "dict_delitem [] k = Inl KeyError"
| "dict_delitem ((k', v') # d) k =
     (if k' = k then Inr d
      else (case dict_delitem d k of
              Inl e \<Rightarrow> Inl e
            | Inr d' \<Rightarrow> Inr ((k', v') # d')))"

text \<open>\<open>list.remove(x)\<close> deletes the first occurrence and raises when there is none.\<close>

definition list_remove :: "'a list \<Rightarrow> 'a \<Rightarrow> error + 'a list" where
  "list_remove xs x = (if x \<in> set xs then Inr (remove1 x xs) else Inl ValueError)"

subsection \<open>The collection\<close>

record instances_set =
  all_instances_ids :: "string list"
  by_series :: "(string, string list) dict"
  study_id :: "string option"

text \<open>The constructor \<open>__init__\<close>.\<close>

definition InstancesSet :: instances_set where
  "InstancesSet = \<lparr>all_instances_ids = [], by_series = [], study_id = None\<rparr>"

text \<open>The method \<open>_add_series\<close>.\<close>

definition priv_add_series :: "instances_set \<Rightarrow> string \<Rightarrow> string list \<Rightarrow> instances_set" where
  "priv_add_series self series_id instances_ids =
     self\<lparr>by_series := dict_setitem (by_series self) series_id instances_ids,
          all_instances_ids := all_instances_ids self @ instances_ids\<rparr>"

subsection \<open>The accessors\<close>

definition instances_ids :: "instances_set \<Rightarrow> string list" where
  "instances_ids self = all_instances_ids self"

definition series_ids :: "instances_set \<Rightarrow> string list" where
  "series_ids self = dict_keys (by_series self)"

definition get_instances_ids :: "instances_set \<Rightarrow> string \<Rightarrow> error + string list" where
  "get_instances_ids self series_id =
     (if dict_contains (by_series self) series_id
      then dict_getitem (by_series self) series_id
      else Inr [])"

subsection \<open>\<open>filter_instances\<close>\<close>

text \<open>
  The predicate is called as \<open>filter(api_client, instance_id)\<close> with the client of the
  collection; it is a function \<open>flt\<close> of the instance identifier here, true to keep
  the instance.

  The loop \<open>for i in instances_to_delete\<close>: both removals go through the current
  state of \<open>self\<close>.
\<close>

fun remove_loop :: "string \<Rightarrow> string list \<Rightarrow> instances_set \<Rightarrow> error + instances_set" where
  "remove_loop series_id [] self = Inr self"
| "remove_loop series_id (i # rest) self =
     (case dict_getitem (by_series self) series_id of
        Inl e \<Rightarrow> Inl e
      | Inr series_list \<Rightarrow>
          (case list_remove series_list i of
             Inl e \<Rightarrow> Inl e
           | Inr series_list' \<Rightarrow>
               (case list_remove (all_instances_ids self) i of
                  Inl e \<Rightarrow> Inl e
                | Inr all' \<Rightarrow>
                    remove_loop series_id rest
                      (self\<lparr>by_series := dict_setitem (by_series self) series_id series_list',
                            all_instances_ids := all'\<rparr>))))"

text \<open>
  The loop over \<open>self._by_series.items()\<close>. Its state is \<open>self\<close>, the list
  \<open>series_to_delete\<close> and the collection \<open>filtered\<close> under construction. The
  bodies only replace the value of the key being visited, so the items met are the
  items present when the loop starts.
\<close>

fun filter_loop ::
  "(string \<Rightarrow> bool) \<Rightarrow> (string \<times> string list) list \<Rightarrow>
   instances_set \<times> string list \<times> instances_set \<Rightarrow>
   error + (instances_set \<times> string list \<times> instances_set)" where
  "filter_loop flt [] st = Inr st"
| "filter_loop flt ((series_id, series_instances) # items) (self, series_to_delete, filtered) =
     (let instances_to_delete = [instance_id \<leftarrow> series_instances. \<not> flt instance_id] in
      case remove_loop series_id instances_to_delete self of
        Inl e \<Rightarrow> Inl e
      | Inr self' \<Rightarrow>
          (case dict_getitem (by_series self') series_id of
             Inl e \<Rightarrow> Inl e
           | Inr series_list \<Rightarrow>
               filter_loop flt items
                 (self',
                  (if length series_list = 0 then series_to_delete @ [series_id]
                   else series_to_delete),
                  priv_add_series filtered series_id instances_to_delete)))"

text \<open>The loop \<open>for s in series_to_delete: del self._by_series[s]\<close>.\<close>

fun delete_loop :: "string list \<Rightarrow> (string, string list) dict \<Rightarrow> error + (string, string list) dict" where
  "delete_loop [] d = Inr d"
| "delete_loop (s # rest) d =
     (case dict_delitem d s of
        Inl e \<Rightarrow> Inl e
      | Inr d' \<Rightarrow> delete_loop rest d')"

text \<open>
  \<open>filter_instances\<close> returns the pair of the returned collection \<open>filtered\<close> (the
  removed instances) and \<open>self\<close> after the call (the kept instances).
\<close>

definition filter_instances ::
  "(string \<Rightarrow> bool) \<Rightarrow> instances_set \<Rightarrow> error + (instances_set \<times> instances_set)" where
  "filter_instances flt self =
     (case filter_loop flt (by_series self)
             (self, [], InstancesSet\<lparr>study_id := study_id self\<rparr>) of
        Inl e \<Rightarrow> Inl e
      | Inr (self', series_to_delete, filtered) \<Rightarrow>
          (case delete_loop series_to_delete (by_series self') of
             Inl e \<Rightarrow> Inl e
           | Inr d \<Rightarrow> Inr (filtered, self'\<lparr>by_series := d\<rparr>)))"

subsection \<open>The client and the server\<close>

text \<open>
  The collection talks to the server through its \<open>api_client\<close>, whose code is not
  part of the files at hand; the three operations used by the class are parameters.
  During one call of a method the server answers a query by a function of the query.
  A JSON body is a \<open>dict\<close>; the response of \<open>tools/bulk-modify\<close> carries a status
  code and a list \<open>Resources\<close> of entries with a \<open>Type\<close> and an \<open>ID\<close>.
\<close>

datatype json_value =
    JBool bool
  | JString string
  | JStrings "string list"
  | JTags "(string, string) dict"

record request =
  endpoint :: string
  json :: "(string, json_value) dict"

record resource =
  res_type :: string
  res_id :: string

record response =
  status_code :: int
  resources :: "resource list"

record study =
  orthanc_id :: string
  info_series_ids :: "string list"

record api_client =
  series_get_instances_ids :: "string \<Rightarrow> error + string list"
  studies_get :: "string option \<Rightarrow> error + study"
  post :: "request \<Rightarrow> error + response"

subsection \<open>\<open>add_series\<close> and \<open>from_study\<close>\<close>

definition add_series :: "api_client \<Rightarrow> instances_set \<Rightarrow> string \<Rightarrow> error + instances_set" where
  "add_series api self series_id =
     (case series_get_instances_ids api series_id of
        Inl e \<Rightarrow> Inl e
      | Inr ids \<Rightarrow> Inr (priv_add_series self series_id ids))"

fun add_series_loop :: "api_client \<Rightarrow> string list \<Rightarrow> instances_set \<Rightarrow> error + instances_set" where
  "add_series_loop api [] instances_set = Inr instances_set"
| "add_series_loop api (series_id # rest) instances_set =
     (case add_series api instances_set series_id of
        Inl e \<Rightarrow> Inl e
      | Inr instances_set' \<Rightarrow> add_series_loop api rest instances_set')"

text \<open>
  \<open>if not study: study = api_client.studies.get(study_id)\<close>, on the arguments
  \<open>study_id\<close> and \<open>study\<close> of \<open>from_study\<close>.
\<close>

definition resolve_study :: "api_client \<Rightarrow> string option \<Rightarrow> study option \<Rightarrow> error + study" where
  "resolve_study api study_id_arg study_arg =
     (case study_arg of
        None \<Rightarrow> studies_get api study_id_arg
      | Some st \<Rightarrow> Inr st)"

definition from_study :: "api_client \<Rightarrow> string option \<Rightarrow> study option \<Rightarrow> error + instances_set" where
  "from_study api study_id_arg study_arg =
     (case resolve_study api study_id_arg study_arg of
        Inl e \<Rightarrow> Inl e
      | Inr st \<Rightarrow>
          add_series_loop api (info_series_ids st)
            (InstancesSet\<lparr>study_id := Some (orthanc_id st)\<rparr>))"

subsection \<open>\<open>delete\<close>\<close>

text \<open>
  \<open>delete\<close> returns nothing; what it does is the request it sends. The model returns
  the list of the requests sent, with the outcome of the call.
\<close>

definition delete :: "api_client \<Rightarrow> instances_set \<Rightarrow> request list \<times> (error + unit)" where
  "delete api self =
     (let req = \<lparr>endpoint = ''tools/bulk-delete'',
                 json = [(''Resources'', JStrings (instances_ids self))]\<rparr>
      in ([req], case post api req of Inl e \<Rightarrow> Inl e | Inr r \<Rightarrow> Inr ()))"

subsection \<open>\<open>modify\<close>\<close>

definition modify_query ::
  "instances_set \<Rightarrow> (string, string) dict option \<Rightarrow> string list option \<Rightarrow> string list option \<Rightarrow>
   bool \<Rightarrow> bool \<Rightarrow> (string, json_value) dict" where
  "modify_query self replace_tags remove_tags keep_tags keep_source force =
     (let query = [(''Force'', JBool force),
                   (''Resources'', JStrings (instances_ids self)),
                   (''KeepSource'', JBool keep_source),
                   (''Level'', JString ''Instance'')];
          query = (case replace_tags of
                     Some tags \<Rightarrow> if length tags > 0 then dict_setitem query ''Replace'' (JTags tags) else query
                   | None \<Rightarrow> query);
          query = (case remove_tags of
                     Some tags \<Rightarrow> if length tags > 0 then dict_setitem query ''Remove'' (JStrings tags) else query
                   | None \<Rightarrow> query);
          query = (case keep_tags of
                     Some tags \<Rightarrow> if length tags > 0 then dict_setitem query ''Keep'' (JStrings tags) else query
                   | None \<Rightarrow> query)
      in query)"

text \<open>
  The loop \<open>for r in rjson['Resources']\<close> with its three tests; the state is the triple
  of \<open>modified_instances_ids\<close>, \<open>modified_series_ids\<close> and \<open>modified_studies_ids\<close>.
\<close>

fun classify_loop ::
  "resource list \<Rightarrow> string list \<times> string list \<times> string list \<Rightarrow>
   string list \<times> string list \<times> string list" where
  "classify_loop [] acc = acc"
| "classify_loop (r # rest) (modified_instances_ids, modified_series_ids, modified_studies_ids) =
     (let modified_studies_ids =
            (if res_type r = ''Study'' then modified_studies_ids @ [res_id r]
             else modified_studies_ids);
          modified_series_ids =
            (if res_type r = ''Series'' then modified_series_ids @ [res_id r]
             else modified_series_ids);
          modified_instances_ids =
            (if res_type r = ''Instance'' then modified_instances_ids @ [res_id r]
             else modified_instances_ids)
      in classify_loop rest (modified_instances_ids, modified_series_ids, modified_studies_ids))"

text \<open>
  \<open>list(set(a).intersection(set(b)))\<close>: a Python set holds each element once, and the
  order in which it is iterated is left open by the language. The parameter
  \<open>set_order\<close> is that order: it is applied to the elements of the intersection, and
  the theorems take it to be any function that permutes its argument.
\<close>

definition intersection_list ::
  "(string list \<Rightarrow> string list) \<Rightarrow> string list \<Rightarrow> string list \<Rightarrow> string list" where
  "intersection_list set_order a b = set_order [x \<leftarrow> remdups a. x \<in> set b]"

text \<open>The loop \<open>for s in modified_series_ids\<close>.\<close>

fun modify_loop ::
  "api_client \<Rightarrow> (string list \<Rightarrow> string list) \<Rightarrow> string list \<Rightarrow> string list \<Rightarrow>
   instances_set \<Rightarrow> error + instances_set" where
  "modify_loop api set_order [] modified_instances_ids modified_set = Inr modified_set"
| "modify_loop api set_order (s # rest) modified_instances_ids modified_set =
     (case series_get_instances_ids api s of
        Inl e \<Rightarrow> Inl e
      | Inr series_all_instances_ids \<Rightarrow>
          (let series_instances_ids =
                 intersection_list set_order series_all_instances_ids modified_instances_ids
           in modify_loop api set_order rest modified_instances_ids
                (modified_set\<lparr>by_series := dict_setitem (by_series modified_set) s series_instances_ids,
                              all_instances_ids := all_instances_ids modified_set @ series_instances_ids\<rparr>)))"

text \<open>
  \<open>modify\<close> returns the pair of its result (\<open>None\<close> or the new collection) and
  \<open>self\<close> after the call. \<open>modified_studies_ids[0]\<close> is read when the list has
  exactly one element.
\<close>

definition modify ::
  "api_client \<Rightarrow> (string list \<Rightarrow> string list) \<Rightarrow> instances_set \<Rightarrow>
   (string, string) dict option \<Rightarrow> string list option \<Rightarrow> string list option \<Rightarrow> bool \<Rightarrow> bool \<Rightarrow>
   error + (instances_set option \<times> instances_set)" where
  "modify api set_order self replace_tags remove_tags keep_tags keep_source force =
     (let query = modify_query self replace_tags remove_tags keep_tags keep_source force in
      case post api \<lparr>endpoint = ''tools/bulk-modify'', json = query\<rparr> of
        Inl e \<Rightarrow> Inl e
      | Inr r \<Rightarrow>
          if status_code r = 200 then
            (case classify_loop (resources r) ([], [], []) of
               (modified_instances_ids, modified_series_ids, modified_studies_ids) \<Rightarrow>
                 if length modified_studies_ids \<noteq> 1 then Inr (None, self)
                 else if length modified_series_ids \<noteq> length (dict_keys (by_series self))
                   then Inr (None, self)
                 else if length modified_instances_ids \<noteq> length (all_instances_ids self)
                   then Inr (None, self)
                 else
                   (case modify_loop api set_order modified_series_ids modified_instances_ids
                           InstancesSet of
                      Inl e \<Rightarrow> Inl e
                    | Inr modified_set \<Rightarrow>
                        Inr (Some (modified_set\<lparr>study_id := Some (hd modified_studies_ids)\<rparr>),
                             self)))
          else Inr (None, self))"

subsection \<open>\<open>process_instances\<close>\<close>

text \<open>
  The processor is called as \<open>processor(api_client, instance_id)\<close> for its effect. It
  is a function of the instance identifier and of the state \<open>w\<close> of whatever it acts
  on, and it raises or returns the new state. The model returns the list of the
  identifiers the processor was invoked on, in the order of the invocations, with
  the outcome.
\<close>

fun process_loop ::
  "(string \<Rightarrow> 'w \<Rightarrow> error + 'w) \<Rightarrow> string list \<Rightarrow> 'w \<Rightarrow> string list \<times> (error + 'w)" where
  "process_loop processor [] w = ([], Inr w)"
| "process_loop processor (instance_id # rest) w =
     (case processor instance_id w of
        Inl e \<Rightarrow> ([instance_id], Inl e)
      | Inr w' \<Rightarrow>
          (case process_loop processor rest w' of
             (invoked, outcome) \<Rightarrow> (instance_id # invoked, outcome)))"

definition process_instances ::
  "(string \<Rightarrow> 'w \<Rightarrow> error + 'w) \<Rightarrow> instances_set \<Rightarrow> 'w \<Rightarrow> string list \<times> (error + 'w)" where
  "process_instances processor self w = process_loop processor (all_instances_ids self) w"

section \<open>Notions of the specification\<close>

text \<open>
  The data model: the keys of \<open>instancesBySeries\<close> are pairwise different, as the
  keys of a \<open>dict\<close> are, and \<open>allInstanceIds\<close> is the flattened sequence of the
  instance identifiers of all series, in the order of the series.
\<close>

definition well_formed :: "instances_set \<Rightarrow> bool" where
  "well_formed self =
     (distinct (dict_keys (by_series self)) \<and>
      all_instances_ids self = concat (map snd (by_series self)))"

text \<open>
  What \<open>filter_instances\<close> computes, written without loops: every series keeps the
  instances that satisfy the predicate, the series left empty are listed in
  \<open>emptied\<close> and dropped from the kept part, and the removed part records every
  series with the instances that fail the predicate.
\<close>

definition kept_items ::
  "(string \<Rightarrow> bool) \<Rightarrow> (string, string list) dict \<Rightarrow> (string, string list) dict" where
  "kept_items flt d = map (\<lambda>(s, xs). (s, filter flt xs)) d"

definition removed_items ::
  "(string \<Rightarrow> bool) \<Rightarrow> (string, string list) dict \<Rightarrow> (string, string list) dict" where
  "removed_items flt d = map (\<lambda>(s, xs). (s, [i \<leftarrow> xs. \<not> flt i])) d"

definition emptied :: "(string \<Rightarrow> bool) \<Rightarrow> (string, string list) dict \<Rightarrow> string list" where
  "emptied flt d = map fst [e \<leftarrow> d. filter flt (snd e) = []]"

definition kept_part :: "(string \<Rightarrow> bool) \<Rightarrow> instances_set \<Rightarrow> instances_set" where
  "kept_part flt self =
     self\<lparr>by_series := [e \<leftarrow> kept_items flt (by_series self). snd e \<noteq> []],
          all_instances_ids := filter flt (all_instances_ids self)\<rparr>"

definition removed_part :: "(string \<Rightarrow> bool) \<Rightarrow> instances_set \<Rightarrow> instances_set" where
  "removed_part flt self =
     \<lparr>all_instances_ids = [i \<leftarrow> all_instances_ids self. \<not> flt i],
      by_series = removed_items flt (by_series self),
      study_id = study_id self\<rparr>"

text \<open>The instance \<open>i\<close> is in the sequence that the collection records for the series \<open>s\<close>.\<close>

definition in_series :: "instances_set \<Rightarrow> string \<Rightarrow> string \<Rightarrow> bool" where
  "in_series self s i =
     (case dict_getitem (by_series self) s of
        Inl e \<Rightarrow> False
      | Inr xs \<Rightarrow> i \<in> set xs)"

text \<open>
  The invariant of a snapshot: the lengths of the sequences of all series add up to
  the length of \<open>allInstanceIds\<close>, and every identifier of \<open>allInstanceIds\<close> is in
  the sequence of exactly one series.
\<close>

definition series_total :: "instances_set \<Rightarrow> nat" where
  "series_total self = sum_list (map (\<lambda>(s, xs). length xs) (by_series self))"

definition series_containing :: "instances_set \<Rightarrow> string \<Rightarrow> string list" where
  "series_containing self i = map fst [e \<leftarrow> by_series self. i \<in> set (snd e)]"

definition snapshot_invariant :: "instances_set \<Rightarrow> bool" where
  "snapshot_invariant self =
     (series_total self = length (all_instances_ids self) \<and>
      (\<forall>i \<in> set (all_instances_ids self). length (series_containing self i) = 1))"

text \<open>The instances that the server lists for a series; none when the query fails.\<close>

definition listed :: "api_client \<Rightarrow> string \<Rightarrow> string list" where
  "listed api s = (case series_get_instances_ids api s of Inl e \<Rightarrow> [] | Inr xs \<Rightarrow> xs)"

text \<open>The identifiers of the entries of one type in a response, in the order of the response.\<close>

definition ids_of_type :: "string \<Rightarrow> resource list \<Rightarrow> string list" where
  "ids_of_type t rs = map res_id [r \<leftarrow> rs. res_type r = t]"

text \<open>
  The removals \<open>self._all_instances_ids.remove(i)\<close> of one call of
  \<open>filter_instances\<close>, taken together: each identifier of the list \<open>ds\<close> is
  removed once from the sequence, in order, and the first one that is absent raises.
\<close>

fun remove_each :: "string list \<Rightarrow> string list \<Rightarrow> error + string list" where
  "remove_each a [] = Inr a"
| "remove_each a (i # ds) =
     (case list_remove a i of
        Inl e \<Rightarrow> Inl e
      | Inr a' \<Rightarrow> remove_each a' ds)"

text \<open>
  The state in which the identifiers of a list leave what the processor acts on when
  it is applied to them one after the other, each application starting from the state
  the one before it left; the exception of the first application that raises
  otherwise.
\<close>

fun after_all :: "(string \<Rightarrow> 'w \<Rightarrow> error + 'w) \<Rightarrow> string list \<Rightarrow> 'w \<Rightarrow> error + 'w" where
  "after_all processor [] w = Inr w"
| "after_all processor (i # rest) w =
     (case processor i w of
        Inl e \<Rightarrow> Inl e
      | Inr w' \<Rightarrow> after_all processor rest w')"

section \<open>Example inputs\<close>

text \<open>
  The snapshot of the study \<open>S1\<close> with the series \<open>A\<close> of instances \<open>i1\<close>, \<open>i2\<close>
  and the series \<open>B\<close> of instance \<open>i3\<close>, and two predicates.
\<close>

definition example_set :: instances_set where
  "example_set =
     \<lparr>all_instances_ids = [''i1'', ''i2'', ''i3''],
      by_series = [(''A'', [''i1'', ''i2'']), (''B'', [''i3''])],
      study_id = Some ''S1''\<rparr>"

definition keep_all :: "string \<Rightarrow> bool" where
  "keep_all i = True"

definition keep_i1 :: "string \<Rightarrow> bool" where
  "keep_i1 i = (i = ''i1'')"

text \<open>A collection that records a series without instances.\<close>

definition sparse_set :: instances_set where
  "sparse_set =
     \<lparr>all_instances_ids = [''i1''],
      by_series = [(''A'', [''i1'']), (''B'', [])],
      study_id = Some ''S1''\<rparr>"

text \<open>
  A server that knows the study \<open>S1\<close> and answers a bulk modification with the study
  \<open>S2\<close>, the series \<open>A2\<close> of instances \<open>j1\<close>, \<open>j2\<close> and the series \<open>B2\<close> of
  instance \<open>j3\<close>.
\<close>

definition example_listing :: "string \<Rightarrow> error + string list" where
  "example_listing s =
     (if s = ''A'' then Inr [''i1'', ''i2'']
      else if s = ''B'' then Inr [''i3'']
      else if s = ''A2'' then Inr [''j1'', ''j2'']
      else if s = ''B2'' then Inr [''j3'']
      else Inl ResourceNotFound)"

definition example_study :: study where
  "example_study = \<lparr>orthanc_id = ''S1'', info_series_ids = [''A'', ''B'']\<rparr>"

definition example_studies_get :: "string option \<Rightarrow> error + study" where
  "example_studies_get s = (if s = Some ''S1'' then Inr example_study else Inl ResourceNotFound)"

definition example_response :: response where
  "example_response =
     \<lparr>status_code = 200,
      resources =
        [\<lparr>res_type = ''Study'', res_id = ''S2''\<rparr>,
         \<lparr>res_type = ''Series'', res_id = ''A2''\<rparr>,
         \<lparr>res_type = ''Series'', res_id = ''B2''\<rparr>,
         \<lparr>res_type = ''Instance'', res_id = ''j1''\<rparr>,
         \<lparr>res_type = ''Instance'', res_id = ''j2''\<rparr>,
         \<lparr>res_type = ''Instance'', res_id = ''j3''\<rparr>]\<rparr>"

definition example_post :: "request \<Rightarrow> error + response" where
  "example_post req = Inr example_response"

definition example_api :: api_client where
  "example_api =
     \<lparr>series_get_instances_ids = example_listing,
      studies_get = example_studies_get,
      post = example_post\<rparr>"

text \<open>An iteration order for sets: the order of the list they were built from.\<close>

definition listing_order :: "string list \<Rightarrow> string list" where
  "listing_order xs = xs"

text \<open>
  Three other servers: one whose response lists the series \<open>A2\<close> twice, one that
  lists the same instances under both series of its response, and one whose response
  names two studies.
\<close>

definition duplicate_response :: response where
  "duplicate_response =
     \<lparr>status_code = 200,
      resources =
        [\<lparr>res_type = ''Study'', res_id = ''S2''\<rparr>,
         \<lparr>res_type = ''Series'', res_id = ''A2''\<rparr>,
         \<lparr>res_type = ''Series'', res_id = ''A2''\<rparr>,
         \<lparr>res_type = ''Instance'', res_id = ''j1''\<rparr>,
         \<lparr>res_type = ''Instance'', res_id = ''j2''\<rparr>,
         \<lparr>res_type = ''Instance'', res_id = ''j3''\<rparr>]\<rparr>"

definition duplicate_post :: "request \<Rightarrow> error + response" where
  "duplicate_post req = Inr duplicate_response"

definition duplicate_api :: api_client where
  "duplicate_api =
     \<lparr>series_get_instances_ids = example_listing,
      studies_get = example_studies_get,
      post = duplicate_post\<rparr>"

definition overlapping_listing :: "string \<Rightarrow> error + string list" where
  "overlapping_listing s =
     (if s = ''A2'' then Inr [''j1'', ''j2'', ''j3'']
      else if s = ''B2'' then Inr [''j1'', ''j2'', ''j3'']
      else Inl ResourceNotFound)"

definition overlapping_api :: api_client where
  "overlapping_api =
     \<lparr>series_get_instances_ids = overlapping_listing,
      studies_get = example_studies_get,
      post = example_post\<rparr>"

definition two_studies_response :: response where
  "two_studies_response =
     \<lparr>status_code = 200,
      resources =
        [\<lparr>res_type = ''Study'', res_id = ''S2''\<rparr>,
         \<lparr>res_type = ''Study'', res_id = ''S3''\<rparr>,
         \<lparr>res_type = ''Series'', res_id = ''A2''\<rparr>,
         \<lparr>res_type = ''Series'', res_id = ''B2''\<rparr>,
         \<lparr>res_type = ''Instance'', res_id = ''j1''\<rparr>,
         \<lparr>res_type = ''Instance'', res_id = ''j2''\<rparr>,
         \<lparr>res_type = ''Instance'', res_id = ''j3''\<rparr>]\<rparr>"

definition two_studies_post :: "request \<Rightarrow> error + response" where
  "two_studies_post req = Inr two_studies_response"

definition two_studies_api :: api_client where
  "two_studies_api =
     \<lparr>series_get_instances_ids = example_listing,
      studies_get = example_studies_get,
      post = two_studies_post\<rparr>"

text \<open>
  Two processors acting on a log of the identifiers processed: one always succeeds,
  one raises on \<open>i2\<close>.
\<close>

definition logging_processor :: "string \<Rightarrow> string list \<Rightarrow> error + string list" where
  "logging_processor i w = Inr (w @ [i])"

definition failing_processor :: "string \<Rightarrow> string list \<Rightarrow> error + string list" where
  "failing_processor i w = (if i = ''i2'' then Inl (Failure ''i2'') else Inr (w @ [i]))"

section \<open>The loops of \<open>filter_instances\<close>\<close>

lemma dict_getitem_mid:
  "k \<notin> fst ` set pre \<Longrightarrow> dict_getitem (pre @ (k, v) # suf) k = Inr v"
  by (induction pre) auto

lemma dict_setitem_mid:
  "k \<notin> fst ` set pre \<Longrightarrow> dict_setitem (pre @ (k, v) # suf) k w = pre @ (k, w) # suf"
  by (induction pre) auto

lemma dict_setitem_new:
  "k \<notin> fst ` set d \<Longrightarrow> dict_setitem d k w = d @ [(k, w)]"
  by (induction d) auto

lemma remove1_first_failing:
  "\<forall>x\<in>set pre. flt x \<Longrightarrow> \<not> flt a \<Longrightarrow> remove1 a (pre @ a # suf) = pre @ suf"
  by (induction pre) auto

lemma remove_each_append:
  "remove_each a (ds @ ds') =
     (case remove_each a ds of Inl e \<Rightarrow> Inl e | Inr a' \<Rightarrow> remove_each a' ds')"
  by (induction ds arbitrary: a) (auto split: sum.splits)

lemma remove_each_mset:
  "remove_each a ds = Inr a' \<Longrightarrow> mset ds \<subseteq># mset a \<and> mset a' = mset a - mset ds"
proof (induction ds arbitrary: a)
  case Nil
  then show ?case by simp
next
  case (Cons i ds)
  from Cons.prems have i: "i \<in> set a" and rest: "remove_each (remove1 i a) ds = Inr a'"
    by (auto simp: list_remove_def split: if_splits)
  from Cons.IH [OF rest] have sub: "mset ds \<subseteq># mset a - {#i#}"
    and eq: "mset a' = mset a - {#i#} - mset ds"
    by simp_all
  have "mset (i # ds) \<subseteq># mset a"
    using i sub by (simp add: insert_subset_eq_iff)
  moreover have "mset a' = mset a - mset (i # ds)"
    using eq by simp
  ultimately show ?case by simp
qed

lemma remove_each_prefix:
  "\<forall>x\<in>set p. flt x \<Longrightarrow> remove_each (p @ xs @ r) [i \<leftarrow> xs. \<not> flt i] = Inr (p @ filter flt xs @ r)"
proof (induction xs arbitrary: p)
  case Nil
  then show ?case by simp
next
  case (Cons a xs)
  show ?case
  proof (cases "flt a")
    case True
    have "remove_each ((p @ [a]) @ xs @ r) [i \<leftarrow> xs. \<not> flt i] = Inr ((p @ [a]) @ filter flt xs @ r)"
      using Cons.prems True by (intro Cons.IH) auto
    with True show ?thesis by simp
  next
    case False
    have "remove_each (p @ xs @ r) [i \<leftarrow> xs. \<not> flt i] = Inr (p @ filter flt xs @ r)"
      using Cons.prems by (rule Cons.IH)
    with False Cons.prems show ?thesis
      by (simp add: list_remove_def remove1_first_failing [of _ flt])
  qed
qed

lemma remove_loop_run:
  assumes "by_series self = dpre @ (s, q @ xs) # dsuf" and "s \<notin> fst ` set dpre"
    and "\<forall>x\<in>set q. flt x"
  shows "remove_loop s [i \<leftarrow> xs. \<not> flt i] self =
           (case remove_each (all_instances_ids self) [i \<leftarrow> xs. \<not> flt i] of
              Inl e \<Rightarrow> Inl e
            | Inr a \<Rightarrow> Inr (self\<lparr>by_series := dpre @ (s, q @ filter flt xs) # dsuf,
                                  all_instances_ids := a\<rparr>))"
  using assms
proof (induction xs arbitrary: self q)
  case Nil
  then show ?case by simp
next
  case (Cons a xs)
  show ?case
  proof (cases "flt a")
    case True
    have "remove_loop s [i \<leftarrow> xs. \<not> flt i] self =
           (case remove_each (all_instances_ids self) [i \<leftarrow> xs. \<not> flt i] of
              Inl e \<Rightarrow> Inl e
            | Inr a' \<Rightarrow> Inr (self\<lparr>by_series := dpre @ (s, (q @ [a]) @ filter flt xs) # dsuf,
                                  all_instances_ids := a'\<rparr>))"
      using Cons.prems True by (intro Cons.IH) auto
    with True show ?thesis by (simp split: sum.splits)
  next
    case False
    show ?thesis
    proof (cases "a \<in> set (all_instances_ids self)")
      case absent: False
      with False Cons.prems show ?thesis
        by (simp add: dict_getitem_mid list_remove_def)
    next
      case present: True
      let ?self1 = "self\<lparr>by_series := dpre @ (s, q @ xs) # dsuf,
                         all_instances_ids := remove1 a (all_instances_ids self)\<rparr>"
      have step: "remove_loop s [i \<leftarrow> a # xs. \<not> flt i] self
                  = remove_loop s [i \<leftarrow> xs. \<not> flt i] ?self1"
        using Cons.prems False present
        by (simp add: dict_getitem_mid dict_setitem_mid list_remove_def
            remove1_first_failing [of _ flt])
      have "remove_loop s [i \<leftarrow> xs. \<not> flt i] ?self1 =
           (case remove_each (all_instances_ids ?self1) [i \<leftarrow> xs. \<not> flt i] of
              Inl e \<Rightarrow> Inl e
            | Inr a' \<Rightarrow> Inr (?self1\<lparr>by_series := dpre @ (s, q @ filter flt xs) # dsuf,
                                  all_instances_ids := a'\<rparr>))"
        using Cons.prems by (intro Cons.IH) auto
      with step False present show ?thesis
        by (simp add: list_remove_def split: sum.splits)
    qed
  qed
qed


lemma filter_loop_run:
  assumes "by_series self = seen @ items" and "distinct (map fst (seen @ items))"
    and "fst ` set (by_series filtered) \<inter> fst ` set items = {}"
  shows "filter_loop flt items (self, std, filtered) =
           (case remove_each (all_instances_ids self) [i \<leftarrow> concat (map snd items). \<not> flt i] of
              Inl e \<Rightarrow> Inl e
            | Inr a \<Rightarrow>
                Inr (self\<lparr>by_series := seen @ kept_items flt items, all_instances_ids := a\<rparr>,
                     std @ emptied flt items,
                     filtered\<lparr>by_series := by_series filtered @ removed_items flt items,
                              all_instances_ids := all_instances_ids filtered
                                 @ [i \<leftarrow> concat (map snd items). \<not> flt i]\<rparr>))"
  using assms
proof (induction items arbitrary: self std filtered seen)
  case Nil
  then show ?case by (simp add: kept_items_def removed_items_def emptied_def)
next
  case (Cons item items)
  obtain s xs where item: "item = (s, xs)" by (cases item)
  let ?del = "[i \<leftarrow> xs. \<not> flt i]"
  have s_new: "s \<notin> fst ` set seen"
    using Cons.prems(2) item by auto
  have s_fresh: "s \<notin> fst ` set (by_series filtered)"
    using Cons.prems(3) item by auto
  have rm: "remove_loop s ?del self =
           (case remove_each (all_instances_ids self) ?del of
              Inl e \<Rightarrow> Inl e
            | Inr a \<Rightarrow> Inr (self\<lparr>by_series := seen @ (s, filter flt xs) # items,
                                  all_instances_ids := a\<rparr>))"
    using remove_loop_run [of self seen s "[]" xs items flt] Cons.prems(1) item s_new
    by (simp split: sum.splits)
  show ?case
  proof (cases "remove_each (all_instances_ids self) ?del")
    case (Inl e)
    then show ?thesis
      using rm by (simp add: item remove_each_append)
  next
    case (Inr a)
    let ?self1 = "self\<lparr>by_series := seen @ (s, filter flt xs) # items, all_instances_ids := a\<rparr>"
    let ?std1 = "if length (filter flt xs) = 0 then std @ [s] else std"
    let ?filtered1 = "priv_add_series filtered s ?del"
    have step: "filter_loop flt (item # items) (self, std, filtered) =
                filter_loop flt items (?self1, ?std1, ?filtered1)"
      using rm Inr s_new by (simp add: item dict_getitem_mid)
    have f1: "by_series ?filtered1 = by_series filtered @ [(s, ?del)]"
      using s_fresh by (simp add: priv_add_series_def dict_setitem_new)
    have ih: "filter_loop flt items (?self1, ?std1, ?filtered1) =
           (case remove_each (all_instances_ids ?self1) [i \<leftarrow> concat (map snd items). \<not> flt i] of
              Inl e \<Rightarrow> Inl e
            | Inr a' \<Rightarrow>
                Inr (?self1\<lparr>by_series := (seen @ [(s, filter flt xs)]) @ kept_items flt items,
                            all_instances_ids := a'\<rparr>,
                     ?std1 @ emptied flt items,
                     ?filtered1\<lparr>by_series := by_series ?filtered1 @ removed_items flt items,
                              all_instances_ids := all_instances_ids ?filtered1
                                 @ [i \<leftarrow> concat (map snd items). \<not> flt i]\<rparr>))"
    proof (intro Cons.IH)
      show "by_series ?self1 = (seen @ [(s, filter flt xs)]) @ items" by simp
      show "distinct (map fst ((seen @ [(s, filter flt xs)]) @ items))"
        using Cons.prems(2) item by simp
      show "fst ` set (by_series ?filtered1) \<inter> fst ` set items = {}"
        using Cons.prems(2,3) item f1 by auto
    qed
    show ?thesis
      unfolding step ih using s_fresh Inr
      by (simp add: item remove_each_append kept_items_def removed_items_def emptied_def
          priv_add_series_def dict_setitem_new split: sum.splits)
  qed
qed

lemma dict_delitem_ok:
  "distinct (map fst d) \<Longrightarrow> k \<in> fst ` set d \<Longrightarrow> dict_delitem d k = Inr [e \<leftarrow> d. fst e \<noteq> k]"
proof (induction d)
  case Nil
  then show ?case by simp
next
  case (Cons e d)
  show ?case
  proof (cases "fst e = k")
    case True
    have "\<forall>e'\<in>set d. fst e' \<noteq> k"
      using Cons.prems(1) True by (auto simp: image_iff)
    then have "[e' \<leftarrow> d. fst e' \<noteq> k] = d"
      by (simp add: filter_id_conv)
    with True show ?thesis by (cases e) simp
  next
    case False
    with Cons show ?thesis by (cases e) auto
  qed
qed

lemma delete_loop_ok:
  "distinct (map fst d) \<Longrightarrow> distinct ss \<Longrightarrow> set ss \<subseteq> fst ` set d \<Longrightarrow>
   delete_loop ss d = Inr [e \<leftarrow> d. fst e \<notin> set ss]"
proof (induction ss arbitrary: d)
  case Nil
  then show ?case by simp
next
  case (Cons s ss)
  have del: "dict_delitem d s = Inr [e \<leftarrow> d. fst e \<noteq> s]"
    using Cons.prems by (intro dict_delitem_ok) auto
  have "delete_loop ss [e \<leftarrow> d. fst e \<noteq> s] = Inr [e \<leftarrow> [e \<leftarrow> d. fst e \<noteq> s]. fst e \<notin> set ss]"
  proof (intro Cons.IH)
    show "distinct (map fst [e \<leftarrow> d. fst e \<noteq> s])"
      using Cons.prems(1) by (simp add: distinct_map_filter)
    show "distinct ss" using Cons.prems(2) by simp
    show "set ss \<subseteq> fst ` set [e \<leftarrow> d. fst e \<noteq> s]"
      using Cons.prems(2,3) by force
  qed
  with del show ?case by (simp add: conj_commute)
qed

lemma emptied_kept_items:
  "distinct (map fst d) \<Longrightarrow>
   [e \<leftarrow> kept_items flt d. fst e \<notin> set (emptied flt d)] = [e \<leftarrow> kept_items flt d. snd e \<noteq> []]"
proof (rule filter_cong [OF refl])
  fix e assume "e \<in> set (kept_items flt d)"
  then obtain s xs where e: "e = (s, filter flt xs)" and mem: "(s, xs) \<in> set d"
    by (auto simp: kept_items_def)
  assume dist: "distinct (map fst d)"
  have "s \<in> set (emptied flt d) \<longleftrightarrow> filter flt xs = []"
  proof
    assume "s \<in> set (emptied flt d)"
    then obtain ys where "(s, ys) \<in> set d" and "filter flt ys = []"
      by (auto simp: emptied_def)
    moreover have "ys = xs"
      using dist mem \<open>(s, ys) \<in> set d\<close> by (meson eq_key_imp_eq_value)
    ultimately show "filter flt xs = []" by simp
  next
    assume "filter flt xs = []"
    with mem show "s \<in> set (emptied flt d)"
      by (force simp: emptied_def)
  qed
  then show "(fst e \<notin> set (emptied flt d)) = (snd e \<noteq> [])"
    by (simp add: e)
qed

lemma delete_emptied:
  assumes "distinct (map fst d)"
  shows "delete_loop (emptied flt d) (kept_items flt d) = Inr [e \<leftarrow> kept_items flt d. snd e \<noteq> []]"
proof -
  have k: "map fst (kept_items flt d) = map fst d"
    by (simp add: kept_items_def case_prod_unfold comp_def)
  have "delete_loop (emptied flt d) (kept_items flt d) =
      Inr [e \<leftarrow> kept_items flt d. fst e \<notin> set (emptied flt d)]"
  proof (intro delete_loop_ok)
    show "distinct (map fst (kept_items flt d))" using assms k by simp
    show "distinct (emptied flt d)"
      using assms by (simp add: emptied_def distinct_map_filter)
    show "set (emptied flt d) \<subseteq> fst ` set (kept_items flt d)"
      using k by (metis (no_types, lifting) emptied_def filter_is_subset image_mono set_map)
  qed
  then show ?thesis using assms by (simp add: emptied_kept_items)
qed

text \<open>What one call of \<open>filter_instances\<close> does on any collection whose keys are a dict's.\<close>

lemma filter_instances_run:
  assumes "distinct (dict_keys (by_series self))"
  shows "filter_instances flt self =
     (case remove_each (all_instances_ids self)
             [i \<leftarrow> concat (map snd (by_series self)). \<not> flt i] of
        Inl e \<Rightarrow> Inl e
      | Inr a \<Rightarrow>
          Inr (\<lparr>all_instances_ids = [i \<leftarrow> concat (map snd (by_series self)). \<not> flt i],
                by_series = removed_items flt (by_series self),
                study_id = study_id self\<rparr>,
               self\<lparr>by_series := [e \<leftarrow> kept_items flt (by_series self). snd e \<noteq> []],
                    all_instances_ids := a\<rparr>))"
proof -
  let ?d = "by_series self"
  have dist: "distinct (map fst ?d)"
    using assms by (simp add: dict_keys_def)
  have loop: "filter_loop flt ?d (self, [], InstancesSet\<lparr>study_id := study_id self\<rparr>) =
      (case remove_each (all_instances_ids self) [i \<leftarrow> concat (map snd ?d). \<not> flt i] of
         Inl e \<Rightarrow> Inl e
       | Inr a \<Rightarrow>
           Inr (self\<lparr>by_series := kept_items flt ?d, all_instances_ids := a\<rparr>,
                emptied flt ?d,
                InstancesSet\<lparr>study_id := study_id self,
                  by_series := removed_items flt ?d,
                  all_instances_ids := [i \<leftarrow> concat (map snd ?d). \<not> flt i]\<rparr>))"
    using filter_loop_run [of self "[]" ?d "InstancesSet\<lparr>study_id := study_id self\<rparr>" flt "[]"]
      dist by (simp add: InstancesSet_def split: sum.splits)
  show ?thesis
    unfolding filter_instances_def loop
    by (simp add: delete_emptied [OF dist] InstancesSet_def split: sum.splits)
qed

lemma filter_instances_ok:
  assumes "well_formed self"
  shows "filter_instances flt self = Inr (removed_part flt self, kept_part flt self)"
proof -
  have dist: "distinct (dict_keys (by_series self))"
    and flat: "all_instances_ids self = concat (map snd (by_series self))"
    using assms by (simp_all add: well_formed_def)
  have "remove_each ([] @ concat (map snd (by_series self)) @ [])
          [i \<leftarrow> concat (map snd (by_series self)). \<not> flt i]
        = Inr ([] @ filter flt (concat (map snd (by_series self))) @ [])"
    by (rule remove_each_prefix) simp
  then show ?thesis
    unfolding filter_instances_run [OF dist]
    by (simp add: flat kept_part_def removed_part_def)
qed

lemma remove_loop_study_id:
  "remove_loop s xs self = Inr self' \<Longrightarrow> study_id self' = study_id self"
  by (induction xs arbitrary: self) (auto split: sum.splits)

lemma filter_loop_study_id:
  "filter_loop flt items (self, std, filtered) = Inr (self', std', filtered') \<Longrightarrow>
   study_id filtered' = study_id filtered"
proof (induction items arbitrary: self std filtered)
  case Nil
  then show ?case by simp
next
  case (Cons item items)
  obtain s xs where item: "item = (s, xs)" by (cases item)
  from Cons.prems obtain self1 std1 where
    "filter_loop flt items (self1, std1, priv_add_series filtered s [i \<leftarrow> xs. \<not> flt i]) =
       Inr (self', std', filtered')"
    by (auto simp: item Let_def split: sum.splits)
  then have "study_id filtered' = study_id (priv_add_series filtered s [i \<leftarrow> xs. \<not> flt i])"
    by (rule Cons.IH)
  then show ?case by (simp add: priv_add_series_def)
qed

section \<open>Dictionaries, the parts of a filtered collection and the invariant\<close>

lemma dict_getitem_map_values:
  "dict_getitem (map (\<lambda>(s, xs). (s, g xs)) d) k =
     (case dict_getitem d k of Inl e \<Rightarrow> Inl e | Inr xs \<Rightarrow> Inr (g xs))"
  by (induction d) auto

lemma dict_getitem_mem: "dict_getitem d k = Inr v \<Longrightarrow> (k, v) \<in> set d"
  by (induction d) (auto split: if_splits)

lemma dict_getitem_distinct:
  "distinct (map fst d) \<Longrightarrow> (k, v) \<in> set d \<Longrightarrow> dict_getitem d k = Inr v"
  by (induction d) (auto simp: image_iff)

lemma dict_getitem_present: "k \<in> fst ` set d \<Longrightarrow> \<exists>v. dict_getitem d k = Inr v"
  by (induction d) fastforce+

lemma remove_each_distinct:
  assumes "remove_each a ds = Inr a'" and "distinct a"
  shows "set a' \<inter> set ds = {}" and "set a' \<union> set ds = set a"
proof -
  from remove_each_mset [OF assms(1)]
  have sub: "mset ds \<subseteq># mset a" and eq: "mset a' = mset a - mset ds" by simp_all
  have mem: "x \<in> set xs \<longleftrightarrow> count (mset xs) x \<noteq> 0" for x :: string and xs
    by simp
  have le1: "count (mset a) x \<le> 1" for x
    using assms(2) by (simp add: distinct_count_atmost_1)
  have cnt: "count (mset a') x = count (mset a) x - count (mset ds) x" for x
    by (simp add: eq)
  have ds_le: "count (mset ds) x \<le> count (mset a) x" for x
    using sub by (simp add: mset_subset_eq_count)
  have "x \<notin> set a' \<or> x \<notin> set ds" for x
    unfolding mem using cnt [of x] le1 [of x] by linarith
  then show "set a' \<inter> set ds = {}" by blast
  have "x \<in> set a' \<or> x \<in> set ds \<longleftrightarrow> x \<in> set a" for x
    unfolding mem using cnt [of x] ds_le [of x] by linarith
  then show "set a' \<union> set ds = set a" by blast
qed

lemma kept_items_true:
  "\<forall>e \<in> set d. \<forall>i \<in> set (snd e). flt i \<Longrightarrow> kept_items flt d = d"
  by (induction d) (auto simp: kept_items_def filter_id_conv)

lemma removed_items_true:
  "\<forall>e \<in> set d. \<forall>i \<in> set (snd e). flt i \<Longrightarrow>
   removed_items flt d = map (\<lambda>s. (s, [])) (map fst d)"
  by (induction d) (auto simp: removed_items_def filter_empty_conv)

lemma well_formed_series_total:
  "well_formed self \<Longrightarrow> series_total self = length (all_instances_ids self)"
  by (simp add: well_formed_def series_total_def length_concat case_prod_unfold comp_def)

lemma distinct_concat_one_series:
  "distinct (concat (map snd d)) \<Longrightarrow> i \<in> set (concat (map snd d)) \<Longrightarrow>
   length [e \<leftarrow> d. i \<in> set (snd e)] = 1"
proof (induction d)
  case Nil
  then show ?case by simp
next
  case (Cons e d)
  show ?case
  proof (cases "i \<in> set (snd e)")
    case True
    then have "\<forall>e' \<in> set d. i \<notin> set (snd e')"
      using Cons.prems(1) by auto
    then have "[e' \<leftarrow> d. i \<in> set (snd e')] = []"
      by (simp add: filter_empty_conv)
    with True show ?thesis by simp
  next
    case False
    with Cons show ?thesis by auto
  qed
qed

lemma series_containing_kept:
  "flt i \<Longrightarrow> series_containing (kept_part flt self) i = series_containing self i"
proof -
  assume "flt i"
  then have "map fst [e \<leftarrow> [e \<leftarrow> kept_items flt d. snd e \<noteq> []]. i \<in> set (snd e)]
        = map fst [e \<leftarrow> d. i \<in> set (snd e)]" for d
    by (induction d) (auto simp: kept_items_def filter_empty_conv)
  then show ?thesis by (simp add: series_containing_def kept_part_def)
qed

lemma series_containing_removed:
  "\<not> flt i \<Longrightarrow> series_containing (removed_part flt self) i = series_containing self i"
proof -
  assume "\<not> flt i"
  then have "map fst [e \<leftarrow> removed_items flt d. i \<in> set (snd e)]
        = map fst [e \<leftarrow> d. i \<in> set (snd e)]" for d
    by (induction d) (auto simp: removed_items_def)
  then show ?thesis by (simp add: series_containing_def removed_part_def)
qed

lemma concat_drop_empty: "concat (map snd [e \<leftarrow> d. snd e \<noteq> []]) = concat (map snd d)"
  by (induction d) auto

lemma well_formed_kept_part: "well_formed self \<Longrightarrow> well_formed (kept_part flt self)"
proof -
  assume wf: "well_formed self"
  have "map snd (kept_items flt d) = map (filter flt) (map snd d)" for d
    by (induction d) (auto simp: kept_items_def)
  then have flat: "concat (map snd (kept_items flt (by_series self)))
      = filter flt (concat (map snd (by_series self)))"
    by (simp add: filter_concat)
  have "map fst (kept_items flt d) = map fst d" for d
    by (induction d) (auto simp: kept_items_def)
  then have "distinct (map fst [e \<leftarrow> kept_items flt (by_series self). snd e \<noteq> []])"
    using wf by (simp add: well_formed_def dict_keys_def distinct_map_filter)
  then show ?thesis
    using wf flat by (simp add: well_formed_def dict_keys_def kept_part_def concat_drop_empty)
qed

lemma well_formed_removed_part: "well_formed self \<Longrightarrow> well_formed (removed_part flt self)"
proof -
  assume wf: "well_formed self"
  have "map snd (removed_items flt d) = map (filter (\<lambda>i. \<not> flt i)) (map snd d)" for d
    by (induction d) (auto simp: removed_items_def)
  then have flat: "concat (map snd (removed_items flt (by_series self)))
      = [i \<leftarrow> concat (map snd (by_series self)). \<not> flt i]"
    by (simp add: filter_concat)
  have "map fst (removed_items flt d) = map fst d" for d
    by (induction d) (auto simp: removed_items_def)
  then show ?thesis
    using wf flat by (simp add: well_formed_def dict_keys_def removed_part_def)
qed

section \<open>The loops of \<open>from_study\<close>, \<open>modify\<close> and \<open>process_instances\<close>\<close>

lemma add_series_loop_ok:
  assumes "add_series_loop api ss c = Inr c'" and "distinct ss"
    and "set ss \<inter> fst ` set (by_series c) = {}"
  shows "c' = c\<lparr>by_series := by_series c @ map (\<lambda>s. (s, listed api s)) ss,
                 all_instances_ids := all_instances_ids c @ concat (map (listed api) ss)\<rparr>"
  using assms
proof (induction ss arbitrary: c)
  case Nil
  then show ?case by simp
next
  case (Cons s ss)
  from Cons.prems(1) obtain xs where q: "series_get_instances_ids api s = Inr xs"
    and rest: "add_series_loop api ss (priv_add_series c s xs) = Inr c'"
    by (auto simp: add_series_def split: sum.splits)
  have new: "s \<notin> fst ` set (by_series c)" using Cons.prems(3) by auto
  have c1: "by_series (priv_add_series c s xs) = by_series c @ [(s, xs)]"
    using new by (simp add: priv_add_series_def dict_setitem_new)
  have "c' = (priv_add_series c s xs)
          \<lparr>by_series := by_series (priv_add_series c s xs) @ map (\<lambda>s. (s, listed api s)) ss,
           all_instances_ids := all_instances_ids (priv_add_series c s xs)
              @ concat (map (listed api) ss)\<rparr>"
  proof (rule Cons.IH [OF rest])
    show "distinct ss" using Cons.prems(2) by simp
    show "set ss \<inter> fst ` set (by_series (priv_add_series c s xs)) = {}"
      using Cons.prems(2,3) c1 by auto
  qed
  moreover have "listed api s = xs" using q by (simp add: listed_def)
  ultimately show ?case
    using new by (simp add: priv_add_series_def dict_setitem_new)
qed

lemma from_study_ok:
  assumes "from_study api sid sa = Inr c" and "resolve_study api sid sa = Inr st"
    and "distinct (info_series_ids st)"
  shows "c = \<lparr>all_instances_ids = concat (map (listed api) (info_series_ids st)),
              by_series = map (\<lambda>s. (s, listed api s)) (info_series_ids st),
              study_id = Some (orthanc_id st)\<rparr>"
proof -
  have "add_series_loop api (info_series_ids st) (InstancesSet\<lparr>study_id := Some (orthanc_id st)\<rparr>)
          = Inr c"
    using assms(1,2) by (simp add: from_study_def)
  from add_series_loop_ok [OF this assms(3)] show ?thesis
    by (simp add: InstancesSet_def)
qed

lemma classify_loop_ok:
  "classify_loop rs (a, b, c) =
     (a @ ids_of_type ''Instance'' rs, b @ ids_of_type ''Series'' rs, c @ ids_of_type ''Study'' rs)"
  by (induction rs arbitrary: a b c) (simp_all add: ids_of_type_def Let_def)

lemma set_intersection_list:
  "\<forall>xs. mset (set_order xs) = mset xs \<Longrightarrow>
   set (intersection_list set_order a b) = set a \<inter> set b"
proof -
  assume p: "\<forall>xs. mset (set_order xs) = mset xs"
  have "set (set_order [x \<leftarrow> remdups a. x \<in> set b]) = set [x \<leftarrow> remdups a. x \<in> set b]"
    using p by (metis mset_eq_setD)
  then show ?thesis by (auto simp: intersection_list_def)
qed

lemma distinct_intersection_list:
  "\<forall>xs. mset (set_order xs) = mset xs \<Longrightarrow> distinct (intersection_list set_order a b)"
proof -
  assume p: "\<forall>xs. mset (set_order xs) = mset xs"
  have "distinct (set_order [x \<leftarrow> remdups a. x \<in> set b]) = distinct [x \<leftarrow> remdups a. x \<in> set b]"
    using p by (metis mset_eq_imp_distinct_iff)
  then show ?thesis by (simp add: intersection_list_def)
qed

lemma dict_setitem_map_fst:
  "map fst (dict_setitem d k v) = (if k \<in> set (map fst d) then map fst d else map fst d @ [k])"
  by (induction d k v rule: dict_setitem.induct) auto

lemma dict_setitem_keys:
  "fst ` set (dict_setitem d k v) = insert k (fst ` set d)"
proof -
  have "set (map fst (dict_setitem d k v)) = insert k (set (map fst d))"
    unfolding dict_setitem_map_fst by auto
  then show ?thesis by simp
qed

lemma dict_setitem_distinct:
  "distinct (map fst d) \<Longrightarrow> distinct (map fst (dict_setitem d k v))"
  by (simp add: dict_setitem_map_fst)

lemma dict_getitem_setitem:
  "dict_getitem (dict_setitem d k v) k' = (if k' = k then Inr v else dict_getitem d k')"
  by (induction d) auto

lemma setitems_keys:
  "fst ` set (foldl (\<lambda>d s. dict_setitem d s (f s)) d ss) = fst ` set d \<union> set ss"
  by (induction ss arbitrary: d) (auto simp: dict_setitem_keys)

lemma setitems_distinct:
  "distinct (map fst d) \<Longrightarrow> distinct (map fst (foldl (\<lambda>d s. dict_setitem d s (f s)) d ss))"
  by (induction ss arbitrary: d) (auto simp: dict_setitem_distinct)

lemma setitems_other:
  "s \<notin> set ss \<Longrightarrow>
   dict_getitem (foldl (\<lambda>d s. dict_setitem d s (f s)) d ss) s = dict_getitem d s"
  by (induction ss arbitrary: d) (auto simp: dict_getitem_setitem)

lemma setitems_getitem:
  "s \<in> set ss \<Longrightarrow> dict_getitem (foldl (\<lambda>d s. dict_setitem d s (f s)) d ss) s = Inr (f s)"
proof (induction ss arbitrary: d)
  case Nil
  then show ?case by simp
next
  case (Cons t ss)
  show ?case
  proof (cases "s \<in> set ss")
    case True
    then show ?thesis using Cons.IH by simp
  next
    case False
    with Cons.prems have "s = t" by simp
    with False show ?thesis by (simp add: setitems_other dict_getitem_setitem)
  qed
qed

lemma setitems_fresh:
  "distinct ss \<Longrightarrow> set ss \<inter> fst ` set d = {} \<Longrightarrow>
   foldl (\<lambda>d s. dict_setitem d s (f s)) d ss = d @ map (\<lambda>s. (s, f s)) ss"
proof (induction ss arbitrary: d)
  case Nil
  then show ?case by simp
next
  case (Cons t ss)
  have new: "t \<notin> fst ` set d" using Cons.prems(2) by auto
  have "foldl (\<lambda>d s. dict_setitem d s (f s)) (d @ [(t, f t)]) ss
          = (d @ [(t, f t)]) @ map (\<lambda>s. (s, f s)) ss"
    using Cons.prems by (intro Cons.IH) auto
  then show ?case using new by (simp add: dict_setitem_new)
qed

lemma modify_loop_run:
  assumes "\<forall>s \<in> set ss. \<exists>q. series_get_instances_ids api s = Inr q"
  shows "modify_loop api set_order ss mi ms =
     Inr (ms\<lparr>by_series :=
                foldl (\<lambda>d s. dict_setitem d s (intersection_list set_order (listed api s) mi))
                  (by_series ms) ss,
              all_instances_ids := all_instances_ids ms
                @ concat (map (\<lambda>s. intersection_list set_order (listed api s) mi) ss)\<rparr>)"
  using assms
proof (induction ss arbitrary: ms)
  case Nil
  then show ?case by simp
next
  case (Cons s ss)
  from Cons.prems obtain q where q: "series_get_instances_ids api s = Inr q" by auto
  then have l: "listed api s = q" by (simp add: listed_def)
  let ?x = "intersection_list set_order q mi"
  let ?ms1 = "ms\<lparr>by_series := dict_setitem (by_series ms) s ?x,
                 all_instances_ids := all_instances_ids ms @ ?x\<rparr>"
  have step: "modify_loop api set_order (s # ss) mi ms = modify_loop api set_order ss mi ?ms1"
    using q by (simp add: Let_def)
  have "modify_loop api set_order ss mi ?ms1 =
     Inr (?ms1\<lparr>by_series :=
                foldl (\<lambda>d s. dict_setitem d s (intersection_list set_order (listed api s) mi))
                  (by_series ?ms1) ss,
              all_instances_ids := all_instances_ids ?ms1
                @ concat (map (\<lambda>s. intersection_list set_order (listed api s) mi) ss)\<rparr>)"
    using Cons.prems by (intro Cons.IH) simp
  then show ?case unfolding step by (simp add: l)
qed

lemma distinct_concat_disjoint:
  assumes "distinct ss" and "\<forall>s \<in> set ss. distinct (f s)"
    and "\<forall>s \<in> set ss. \<forall>t \<in> set ss. s \<noteq> t \<longrightarrow> set (f s) \<inter> set (f t) = {}"
  shows "distinct (concat (map f ss))"
  using assms
proof (induction ss)
  case Nil
  then show ?case by simp
next
  case (Cons s ss)
  have "set (f s) \<inter> set (f t) = {}" if "t \<in> set ss" for t
    using Cons.prems(1,3) that by auto
  then have "set (f s) \<inter> (\<Union>t \<in> set ss. set (f t)) = {}" by blast
  moreover have "distinct (concat (map f ss))"
    using Cons by auto
  ultimately show ?case using Cons.prems(2) by simp
qed

lemma process_loop_success:
  "process_loop processor xs w = (invoked, Inr w') \<Longrightarrow> invoked = xs"
proof (induction xs arbitrary: w invoked)
  case Nil
  then show ?case by simp
next
  case (Cons x xs)
  then show ?case by (auto split: sum.splits prod.splits)
qed

lemma process_loop_failure:
  "process_loop processor xs w = (invoked, Inl e) \<Longrightarrow>
   \<exists>before i rest w1. xs = before @ i # rest \<and> invoked = before @ [i] \<and>
     process_loop processor before w = (before, Inr w1) \<and> processor i w1 = Inl e"
proof (induction xs arbitrary: w invoked)
  case Nil
  then show ?case by simp
next
  case (Cons x xs)
  show ?case
  proof (cases "processor x w")
    case (Inl e')
    with Cons.prems have "invoked = [x]" and "e' = e" by simp_all
    with Inl have "x # xs = [] @ x # xs \<and> invoked = [] @ [x] \<and>
       process_loop processor [] w = ([], Inr w) \<and> processor x w = Inl e"
      by simp
    then show ?thesis by blast
  next
    case (Inr w0)
    with Cons.prems obtain inv' where inv': "process_loop processor xs w0 = (inv', Inl e)"
      and invoked: "invoked = x # inv'"
      by (auto split: prod.splits)
    from Cons.IH [OF inv'] obtain before i rest w1 where
      "xs = before @ i # rest" "inv' = before @ [i]"
      "process_loop processor before w0 = (before, Inr w1)" "processor i w1 = Inl e"
      by blast
    with Inr invoked have "x # xs = (x # before) @ i # rest \<and> invoked = (x # before) @ [i] \<and>
       process_loop processor (x # before) w = (x # before, Inr w1) \<and> processor i w1 = Inl e"
      by simp
    then show ?thesis by blast
  qed
qed

lemma process_loop_outcome:
  "snd (process_loop processor xs w) = after_all processor xs w"
proof (induction xs arbitrary: w)
  case Nil
  then show ?case by simp
next
  case (Cons x xs)
  show ?case
  proof (cases "processor x w")
    case (Inl e)
    then show ?thesis by simp
  next
    case (Inr w')
    then show ?thesis
      using Cons.IH [of w'] by (cases "process_loop processor xs w'") simp
  qed
qed

lemma process_loop_all:
  "after_all processor xs w = Inr w' \<Longrightarrow> process_loop processor xs w = (xs, Inr w')"
proof (induction xs arbitrary: w)
  case Nil
  then show ?case by simp
next
  case (Cons x xs)
  then show ?case by (auto split: sum.splits)
qed

lemma process_loop_stops:
  "after_all processor before w = Inr w1 \<Longrightarrow> processor i w1 = Inl e \<Longrightarrow>
   process_loop processor (before @ i # rest) w = (before @ [i], Inl e)"
proof (induction before arbitrary: w)
  case Nil
  then show ?case by simp
next
  case (Cons x before)
  then show ?case by (auto split: sum.splits)
qed

section \<open>The claims\<close>

text \<open>
  A list of pairs may repeat a key, which a Python \<open>dict\<close> cannot: the statements
  on \<open>filter_instances\<close> take the \<open>series_ids\<close> of the collection to be
  pairwise different. The collections of the data model are the \<open>well_formed\<close>
  ones.
\<close>

subsection \<open>C1: the collection returned by \<open>modify\<close>\<close>

text \<open>
  C1 as it is stated does not hold. The test on the series compares the number of
  \<open>Series\<close> entries of the response with the number of series of the snapshot, and
  the entries are not checked to be different. On a response that passes the four
  tests and lists the series \<open>A2\<close> twice, the returned collection has one series
  where the original has two, and four instance identifiers where the original has
  three. On a response with two different series under both of which the server lists
  the three new instances, it has six instance identifiers.
\<close>

theorem modify_success_counterexample:
  "status_code duplicate_response = 200 \<and>
   length (ids_of_type ''Study'' (resources duplicate_response)) = 1 \<and>
   length (ids_of_type ''Series'' (resources duplicate_response)) = length (series_ids example_set) \<and>
   length (ids_of_type ''Instance'' (resources duplicate_response))
     = length (instances_ids example_set) \<and>
   modify duplicate_api listing_order example_set (Some []) (Some []) (Some []) True False =
     Inr (Some \<lparr>all_instances_ids = [''j1'', ''j2'', ''j1'', ''j2''],
                by_series = [(''A2'', [''j1'', ''j2''])],
                study_id = Some ''S2''\<rparr>,
          example_set) \<and>
   length (series_ids \<lparr>all_instances_ids = [''j1'', ''j2'', ''j1'', ''j2''],
                by_series = [(''A2'', [''j1'', ''j2''])],
                study_id = Some ''S2''\<rparr>) \<noteq> length (series_ids example_set) \<and>
   \<not> length (instances_ids \<lparr>all_instances_ids = [''j1'', ''j2'', ''j1'', ''j2''],
                by_series = [(''A2'', [''j1'', ''j2''])],
                study_id = Some ''S2''\<rparr>) \<le> length (instances_ids example_set) \<and>
   modify overlapping_api listing_order example_set (Some []) (Some []) (Some []) True False =
     Inr (Some \<lparr>all_instances_ids = [''j1'', ''j2'', ''j3'', ''j1'', ''j2'', ''j3''],
                by_series = [(''A2'', [''j1'', ''j2'', ''j3'']), (''B2'', [''j1'', ''j2'', ''j3''])],
                study_id = Some ''S2''\<rparr>,
          example_set) \<and>
   \<not> length (instances_ids \<lparr>all_instances_ids = [''j1'', ''j2'', ''j3'', ''j1'', ''j2'', ''j3''],
                by_series = [(''A2'', [''j1'', ''j2'', ''j3'']), (''B2'', [''j1'', ''j2'', ''j3''])],
                study_id = Some ''S2''\<rparr>) \<le> length (instances_ids example_set)"
  by code_simp

text \<open>
  C1, amended. Take a call of \<open>modify\<close> whose response has status 200, exactly one
  \<open>Study\<close> identifier, as many \<open>Series\<close> identifiers as the snapshot has series and
  as many \<open>Instance\<close> identifiers as the snapshot has instances, and in which the
  server answers the query of each series of the response. Then \<open>modify\<close> returns a
  collection and leaves \<open>self\<close> as it was, and in the returned collection:
  \<open>study_id\<close> is the one \<open>Study\<close> identifier; the series are the \<open>Series\<close>
  identifiers of the response, each once; and the list of each series holds, once
  each, exactly the identifiers that are both in the current list of that series on
  the server and among the \<open>Instance\<close> identifiers of the response. The number of
  series equals that of the original exactly when the \<open>Series\<close> identifiers of the
  response are pairwise different, and then the series are in the order of the
  response. The number of instance identifiers is at most that of the original when
  the \<open>Series\<close> identifiers of the response are pairwise different and no
  \<open>Instance\<close> identifier of the response is listed under two of them.
\<close>

theorem modify_success:
  assumes "\<forall>xs. mset (set_order xs) = mset xs"
    and "post api \<lparr>endpoint = ''tools/bulk-modify'',
                   json = modify_query self replace_tags remove_tags keep_tags keep_source force\<rparr>
         = Inr r"
    and "status_code r = 200"
    and "ids_of_type ''Study'' (resources r) = [st]"
    and "length (ids_of_type ''Series'' (resources r)) = length (series_ids self)"
    and "length (ids_of_type ''Instance'' (resources r)) = length (instances_ids self)"
    and "\<forall>s \<in> set (ids_of_type ''Series'' (resources r)).
           \<exists>q. series_get_instances_ids api s = Inr q"
  shows "\<exists>m. modify api set_order self replace_tags remove_tags keep_tags keep_source force
              = Inr (Some m, self) \<and>
           study_id m = Some st \<and>
           distinct (series_ids m) \<and>
           set (series_ids m) = set (ids_of_type ''Series'' (resources r)) \<and>
           (\<forall>s \<in> set (series_ids m). \<exists>xs. get_instances_ids m s = Inr xs \<and>
              distinct xs \<and>
              set xs = set (listed api s) \<inter> set (ids_of_type ''Instance'' (resources r))) \<and>
           ((length (series_ids m) = length (series_ids self))
              = distinct (ids_of_type ''Series'' (resources r))) \<and>
           (distinct (ids_of_type ''Series'' (resources r)) \<longrightarrow>
              series_ids m = ids_of_type ''Series'' (resources r)) \<and>
           (distinct (ids_of_type ''Series'' (resources r)) \<and>
            (\<forall>s \<in> set (ids_of_type ''Series'' (resources r)).
             \<forall>t \<in> set (ids_of_type ''Series'' (resources r)).
               s \<noteq> t \<longrightarrow> set (listed api s) \<inter> set (listed api t)
                            \<inter> set (ids_of_type ''Instance'' (resources r)) = {})
            \<longrightarrow> length (instances_ids m) \<le> length (instances_ids self))"
proof -
  let ?ss = "ids_of_type ''Series'' (resources r)"
  let ?mi = "ids_of_type ''Instance'' (resources r)"
  let ?f = "\<lambda>s. intersection_list set_order (listed api s) ?mi"
  let ?d = "foldl (\<lambda>d s. dict_setitem d s (?f s)) [] ?ss"
  let ?m = "\<lparr>all_instances_ids = concat (map ?f ?ss), by_series = ?d, study_id = Some st\<rparr>"
  have loop: "modify_loop api set_order ?ss ?mi InstancesSet =
      Inr (InstancesSet\<lparr>by_series :=
              foldl (\<lambda>d s. dict_setitem d s (?f s)) (by_series InstancesSet) ?ss,
             all_instances_ids := all_instances_ids InstancesSet @ concat (map ?f ?ss)\<rparr>)"
    using assms(7) by (rule modify_loop_run)
  have run: "modify api set_order self replace_tags remove_tags keep_tags keep_source force
              = Inr (Some ?m, self)"
    using assms(2-6) loop
    by (simp add: modify_def classify_loop_ok InstancesSet_def series_ids_def instances_ids_def)
  have sets: "set (?f s) = set (listed api s) \<inter> set ?mi" for s
    using assms(1) by (rule set_intersection_list)
  have dist: "distinct (?f s)" for s
    using assms(1) by (rule distinct_intersection_list)
  have keys_set: "set (series_ids ?m) = set ?ss"
    using setitems_keys [of ?f "[]" ?ss] by (simp add: series_ids_def dict_keys_def)
  have keys_dist: "distinct (series_ids ?m)"
    using setitems_distinct [of "[]" ?f ?ss] by (simp add: series_ids_def dict_keys_def)
  have per: "\<forall>s \<in> set (series_ids ?m). \<exists>xs. get_instances_ids ?m s = Inr xs \<and>
              distinct xs \<and> set xs = set (listed api s) \<inter> set ?mi"
  proof
    fix s assume s: "s \<in> set (series_ids ?m)"
    then have "s \<in> set ?ss" using keys_set by simp
    then have "dict_getitem ?d s = Inr (?f s)" by (rule setitems_getitem)
    then have "get_instances_ids ?m s = Inr (?f s)"
      using s by (simp add: get_instances_ids_def dict_contains_def series_ids_def)
    then show "\<exists>xs. get_instances_ids ?m s = Inr xs \<and>
              distinct xs \<and> set xs = set (listed api s) \<inter> set ?mi"
      using sets dist by simp
  qed
  have "card (set (series_ids ?m)) = length (series_ids ?m)"
    using keys_dist by (rule distinct_card)
  then have len: "length (series_ids ?m) = card (set ?ss)"
    by (simp only: keys_set)
  have "(card (set ?ss) = length ?ss) = distinct ?ss"
    using card_distinct [of ?ss] distinct_card [of ?ss] by blast
  then have count_series: "(length (series_ids ?m) = length (series_ids self)) = distinct ?ss"
    by (simp only: len assms(5))
  have exact: "distinct ?ss \<longrightarrow> series_ids ?m = ?ss"
  proof
    assume "distinct ?ss"
    then have "?d = [] @ map (\<lambda>s. (s, ?f s)) ?ss"
      by (intro setitems_fresh) simp_all
    then show "series_ids ?m = ?ss"
      by (simp add: series_ids_def dict_keys_def comp_def)
  qed
  have count: "distinct ?ss \<and>
            (\<forall>s \<in> set ?ss. \<forall>t \<in> set ?ss.
               s \<noteq> t \<longrightarrow> set (listed api s) \<inter> set (listed api t) \<inter> set ?mi = {})
            \<longrightarrow> length (instances_ids ?m) \<le> length (instances_ids self)"
  proof
    assume a: "distinct ?ss \<and>
            (\<forall>s \<in> set ?ss. \<forall>t \<in> set ?ss.
               s \<noteq> t \<longrightarrow> set (listed api s) \<inter> set (listed api t) \<inter> set ?mi = {})"
    have "distinct (concat (map ?f ?ss))"
    proof (rule distinct_concat_disjoint)
      show "distinct ?ss" using a by simp
      show "\<forall>s \<in> set ?ss. distinct (?f s)" using dist by simp
      have ov: "\<forall>s \<in> set ?ss. \<forall>t \<in> set ?ss.
               s \<noteq> t \<longrightarrow> set (listed api s) \<inter> set (listed api t) \<inter> set ?mi = {}"
        using a by (rule conjunct2)
      show "\<forall>s \<in> set ?ss. \<forall>t \<in> set ?ss. s \<noteq> t \<longrightarrow> set (?f s) \<inter> set (?f t) = {}"
        using ov sets by auto
    qed
    then have "length (concat (map ?f ?ss)) = card (set (concat (map ?f ?ss)))"
      by (rule distinct_card [symmetric])
    also have "\<dots> \<le> card (set ?mi)"
      by (rule card_mono) (auto simp: sets)
    also have "\<dots> \<le> length ?mi" by (rule card_length)
    finally show "length (instances_ids ?m) \<le> length (instances_ids self)"
      using assms(6) by (simp add: instances_ids_def)
  qed
  have st: "study_id ?m = Some st" by simp
  show ?thesis
  proof (intro exI [of _ ?m] conjI)
    show "modify api set_order self replace_tags remove_tags keep_tags keep_source force
              = Inr (Some ?m, self)" by (rule run)
  qed (rule st keys_dist keys_set per count_series exact count)+
qed

theorem modify_success_witness:
  "(\<forall>xs. mset (listing_order xs) = mset xs) \<and>
   post example_api \<lparr>endpoint = ''tools/bulk-modify'',
      json = modify_query example_set (Some [(''PatientName'', ''X'')]) (Some []) (Some []) True True\<rparr>
     = Inr example_response \<and>
   status_code example_response = 200 \<and>
   ids_of_type ''Study'' (resources example_response) = [''S2''] \<and>
   distinct (ids_of_type ''Series'' (resources example_response)) \<and>
   modify example_api listing_order example_set (Some [(''PatientName'', ''X'')]) (Some []) (Some [])
       True True =
     Inr (Some \<lparr>all_instances_ids = [''j1'', ''j2'', ''j3''],
                by_series = [(''A2'', [''j1'', ''j2'']), (''B2'', [''j3''])],
                study_id = Some ''S2''\<rparr>,
          example_set) \<and>
   (\<exists>m. modify example_api listing_order example_set (Some [(''PatientName'', ''X'')]) (Some [])
            (Some []) True True = Inr (Some m, example_set) \<and>
        study_id m = Some ''S2'' \<and>
        distinct (series_ids m) \<and>
        set (series_ids m) = set (ids_of_type ''Series'' (resources example_response)) \<and>
        (\<forall>s \<in> set (series_ids m). \<exists>xs. get_instances_ids m s = Inr xs \<and>
           distinct xs \<and> set xs = set (listed example_api s)
                      \<inter> set (ids_of_type ''Instance'' (resources example_response))) \<and>
        length (series_ids m) = length (series_ids example_set) \<and>
        series_ids m = ids_of_type ''Series'' (resources example_response) \<and>
        length (instances_ids m) \<le> length (instances_ids example_set))"
proof -
  have h1: "\<forall>xs. mset (listing_order xs) = mset xs" by (simp add: listing_order_def)
  have h2: "post example_api \<lparr>endpoint = ''tools/bulk-modify'',
      json = modify_query example_set (Some [(''PatientName'', ''X'')]) (Some []) (Some []) True True\<rparr>
     = Inr example_response"
    by (simp add: example_api_def example_post_def)
  have h3: "status_code example_response = 200" by code_simp
  have h4: "ids_of_type ''Study'' (resources example_response) = [''S2'']" by code_simp
  have h5: "length (ids_of_type ''Series'' (resources example_response))
              = length (series_ids example_set)" by code_simp
  have h6: "length (ids_of_type ''Instance'' (resources example_response))
              = length (instances_ids example_set)" by code_simp
  have h7: "distinct (ids_of_type ''Series'' (resources example_response))" by code_simp
  have ss: "ids_of_type ''Series'' (resources example_response) = [''A2'', ''B2'']" by code_simp
  have la: "listed example_api ''A2'' = [''j1'', ''j2'']" by code_simp
  have lb: "listed example_api ''B2'' = [''j3'']" by code_simp
  have h8: "\<forall>s \<in> set (ids_of_type ''Series'' (resources example_response)).
           \<exists>q. series_get_instances_ids example_api s = Inr q"
    unfolding ss by (simp add: example_api_def example_listing_def)
  have h9: "\<forall>s \<in> set (ids_of_type ''Series'' (resources example_response)).
         \<forall>t \<in> set (ids_of_type ''Series'' (resources example_response)).
           s \<noteq> t \<longrightarrow> set (listed example_api s) \<inter> set (listed example_api t)
                        \<inter> set (ids_of_type ''Instance'' (resources example_response)) = {}"
    unfolding ss by (simp add: la lb)
  have run: "modify example_api listing_order example_set (Some [(''PatientName'', ''X'')]) (Some [])
       (Some []) True True =
     Inr (Some \<lparr>all_instances_ids = [''j1'', ''j2'', ''j3''],
                by_series = [(''A2'', [''j1'', ''j2'']), (''B2'', [''j3''])],
                study_id = Some ''S2''\<rparr>,
          example_set)"
    by code_simp
  from modify_success [OF h1 h2 h3 h4 h5 h6 h8] obtain m where
    m1: "modify example_api listing_order example_set (Some [(''PatientName'', ''X'')]) (Some [])
            (Some []) True True = Inr (Some m, example_set)"
    and m2: "study_id m = Some ''S2''"
    and m3: "distinct (series_ids m)"
    and m4: "set (series_ids m) = set (ids_of_type ''Series'' (resources example_response))"
    and m5: "\<forall>s \<in> set (series_ids m). \<exists>xs. get_instances_ids m s = Inr xs \<and>
           distinct xs \<and> set xs = set (listed example_api s)
                      \<inter> set (ids_of_type ''Instance'' (resources example_response))"
    and m6: "(length (series_ids m) = length (series_ids example_set))
              = distinct (ids_of_type ''Series'' (resources example_response))"
    and m7: "distinct (ids_of_type ''Series'' (resources example_response)) \<longrightarrow>
              series_ids m = ids_of_type ''Series'' (resources example_response)"
    and m8: "distinct (ids_of_type ''Series'' (resources example_response)) \<and>
            (\<forall>s \<in> set (ids_of_type ''Series'' (resources example_response)).
             \<forall>t \<in> set (ids_of_type ''Series'' (resources example_response)).
               s \<noteq> t \<longrightarrow> set (listed example_api s) \<inter> set (listed example_api t)
                            \<inter> set (ids_of_type ''Instance'' (resources example_response)) = {})
            \<longrightarrow> length (instances_ids m) \<le> length (instances_ids example_set)"
    by blast
  have n6: "length (series_ids m) = length (series_ids example_set)"
    using m6 h7 by simp
  have n7: "series_ids m = ids_of_type ''Series'' (resources example_response)"
    using m7 h7 by simp
  have n8: "length (instances_ids m) \<le> length (instances_ids example_set)"
    using m8 h7 h9 by blast
  have ex: "\<exists>m. modify example_api listing_order example_set (Some [(''PatientName'', ''X'')]) (Some [])
            (Some []) True True = Inr (Some m, example_set) \<and>
        study_id m = Some ''S2'' \<and>
        distinct (series_ids m) \<and>
        set (series_ids m) = set (ids_of_type ''Series'' (resources example_response)) \<and>
        (\<forall>s \<in> set (series_ids m). \<exists>xs. get_instances_ids m s = Inr xs \<and>
           distinct xs \<and> set xs = set (listed example_api s)
                      \<inter> set (ids_of_type ''Instance'' (resources example_response))) \<and>
        length (series_ids m) = length (series_ids example_set) \<and>
        series_ids m = ids_of_type ''Series'' (resources example_response) \<and>
        length (instances_ids m) \<le> length (instances_ids example_set)"
    using m1 m2 m3 m4 m5 n6 n7 n8 by (intro exI [of _ m] conjI)
  show ?thesis
    using h1 h2 h3 h4 h7 run ex by (intro conjI)
qed

subsection \<open>C2: the calls of \<open>modify\<close> without result\<close>

text \<open>
  C2 as it is stated does not hold: the test on the series counts the \<open>Series\<close>
  entries of the response, not the different identifiers among them. The response that
  lists \<open>A2\<close> twice has one distinct series identifier while the snapshot has two
  series, and \<open>modify\<close> returns a collection.
\<close>

theorem modify_no_result_counterexample:
  "length (remdups (ids_of_type ''Series'' (resources duplicate_response))) = 1 \<and>
   length (series_ids example_set) = 2 \<and>
   modify duplicate_api listing_order example_set (Some []) (Some []) (Some []) True False =
     Inr (Some \<lparr>all_instances_ids = [''j1'', ''j2'', ''j1'', ''j2''],
                by_series = [(''A2'', [''j1'', ''j2''])],
                study_id = Some ''S2''\<rparr>,
          example_set)"
  by code_simp

text \<open>
  C2, amended. For every call of \<open>modify\<close> that gets a response: if the status is not
  200, or the response does not contain exactly one \<open>Study\<close> identifier, or the
  number of its \<open>Series\<close> identifiers, counted as listed, differs from the number of
  series of the snapshot, or the number of its \<open>Instance\<close> identifiers differs from
  the number of instance identifiers of the snapshot, then \<open>modify\<close> returns
  \<open>None\<close> and the collection, with its \<open>study_id\<close>, \<open>by_series\<close> and
  \<open>all_instances_ids\<close>, is as it was.
\<close>

theorem modify_no_result:
  assumes "post api \<lparr>endpoint = ''tools/bulk-modify'',
                   json = modify_query self replace_tags remove_tags keep_tags keep_source force\<rparr>
         = Inr r"
    and "status_code r \<noteq> 200 \<or>
         length (ids_of_type ''Study'' (resources r)) \<noteq> 1 \<or>
         length (ids_of_type ''Series'' (resources r)) \<noteq> length (series_ids self) \<or>
         length (ids_of_type ''Instance'' (resources r)) \<noteq> length (instances_ids self)"
  shows "modify api set_order self replace_tags remove_tags keep_tags keep_source force
           = Inr (None, self)"
  using assms
  by (auto simp: modify_def classify_loop_ok series_ids_def instances_ids_def)

theorem modify_no_result_witness:
  "post two_studies_api \<lparr>endpoint = ''tools/bulk-modify'',
      json = modify_query example_set (Some []) (Some []) (Some []) True False\<rparr>
     = Inr two_studies_response \<and>
   length (ids_of_type ''Study'' (resources two_studies_response)) \<noteq> 1 \<and>
   modify two_studies_api listing_order example_set (Some []) (Some []) (Some []) True False
     = Inr (None, example_set)"
proof -
  have h1: "post two_studies_api \<lparr>endpoint = ''tools/bulk-modify'',
      json = modify_query example_set (Some []) (Some []) (Some []) True False\<rparr>
     = Inr two_studies_response"
    by (simp add: two_studies_api_def two_studies_post_def)
  have h2: "length (ids_of_type ''Study'' (resources two_studies_response)) \<noteq> 1" by code_simp
  have h3: "status_code two_studies_response \<noteq> 200 \<or>
         length (ids_of_type ''Study'' (resources two_studies_response)) \<noteq> 1 \<or>
         length (ids_of_type ''Series'' (resources two_studies_response))
           \<noteq> length (series_ids example_set) \<or>
         length (ids_of_type ''Instance'' (resources two_studies_response))
           \<noteq> length (instances_ids example_set)"
    using h2 by simp
  show ?thesis using h1 h2 modify_no_result [OF h1 h3] by simp
qed

subsection \<open>C3: \<open>filter_instances\<close> partitions the instances\<close>

text \<open>
  C3. For every collection whose instance identifiers are duplicate-free and every
  predicate, \<open>filter_instances\<close> partitions the instances: whenever it returns, the
  \<open>all_instances_ids\<close> of the kept collection and of the removed collection are
  disjoint, their union is the original \<open>all_instances_ids\<close>, and each removed
  instance is recorded in the removed collection under the series it belonged to in
  the original; and it returns on every collection of the data model.
\<close>

theorem filter_instances_partition:
  assumes "distinct (series_ids self)" and "distinct (all_instances_ids self)"
  shows "(well_formed self \<longrightarrow> (\<exists>removed kept. filter_instances flt self = Inr (removed, kept))) \<and>
    (\<forall>removed kept. filter_instances flt self = Inr (removed, kept) \<longrightarrow>
       set (all_instances_ids kept) \<inter> set (all_instances_ids removed) = {} \<and>
       set (all_instances_ids kept) \<union> set (all_instances_ids removed)
         = set (all_instances_ids self) \<and>
       (\<forall>i \<in> set (all_instances_ids removed). \<forall>s. in_series removed s i = in_series self s i))"
proof (intro conjI impI allI)
  assume "well_formed self"
  then show "\<exists>removed kept. filter_instances flt self = Inr (removed, kept)"
    by (simp add: filter_instances_ok)
next
  fix removed kept
  assume run: "filter_instances flt self = Inr (removed, kept)"
  let ?ds = "[i \<leftarrow> concat (map snd (by_series self)). \<not> flt i]"
  have keys: "distinct (dict_keys (by_series self))"
    using assms(1) by (simp add: series_ids_def)
  from run obtain a where a: "remove_each (all_instances_ids self) ?ds = Inr a"
    and removed: "removed = \<lparr>all_instances_ids = ?ds,
                by_series = removed_items flt (by_series self),
                study_id = study_id self\<rparr>"
    and kept: "all_instances_ids kept = a"
    unfolding filter_instances_run [OF keys] by (auto split: sum.splits)
  show "set (all_instances_ids kept) \<inter> set (all_instances_ids removed) = {}"
    using remove_each_distinct(1) [OF a assms(2)] by (simp add: removed kept)
  show "set (all_instances_ids kept) \<union> set (all_instances_ids removed)
         = set (all_instances_ids self)"
    using remove_each_distinct(2) [OF a assms(2)] by (simp add: removed kept)
  show "\<forall>i \<in> set (all_instances_ids removed). \<forall>s. in_series removed s i = in_series self s i"
  proof (intro ballI allI)
    fix i s assume "i \<in> set (all_instances_ids removed)"
    then have "\<not> flt i" by (simp add: removed)
    then show "in_series removed s i = in_series self s i"
      by (simp add: removed in_series_def removed_items_def dict_getitem_map_values
          split: sum.splits)
  qed
qed

theorem filter_instances_partition_witness:
  "distinct (series_ids example_set) \<and> distinct (all_instances_ids example_set) \<and>
   well_formed example_set \<and>
   filter_instances keep_i1 example_set =
     Inr (\<lparr>all_instances_ids = [''i2'', ''i3''],
           by_series = [(''A'', [''i2'']), (''B'', [''i3''])],
           study_id = Some ''S1''\<rparr>,
          \<lparr>all_instances_ids = [''i1''],
           by_series = [(''A'', [''i1''])],
           study_id = Some ''S1''\<rparr>) \<and>
   set [''i1''] \<inter> set [''i2'', ''i3''] = {} \<and>
   set [''i1''] \<union> set [''i2'', ''i3''] = set (all_instances_ids example_set) \<and>
   (\<forall>s. in_series \<lparr>all_instances_ids = [''i2'', ''i3''],
           by_series = [(''A'', [''i2'']), (''B'', [''i3''])],
           study_id = Some ''S1''\<rparr> s ''i2'' = in_series example_set s ''i2'') \<and>
   (\<forall>s. in_series \<lparr>all_instances_ids = [''i2'', ''i3''],
           by_series = [(''A'', [''i2'']), (''B'', [''i3''])],
           study_id = Some ''S1''\<rparr> s ''i3'' = in_series example_set s ''i3'') \<and>
   in_series example_set ''A'' ''i2'' \<and> in_series example_set ''B'' ''i3''"
proof -
  have m: "in_series example_set ''A'' ''i2'' \<and> in_series example_set ''B'' ''i3''"
    by code_simp
  have k: "distinct (series_ids example_set)" by code_simp
  have d: "distinct (all_instances_ids example_set)" by code_simp
  have wf: "well_formed example_set" by code_simp
  have run: "filter_instances keep_i1 example_set =
     Inr (\<lparr>all_instances_ids = [''i2'', ''i3''],
           by_series = [(''A'', [''i2'']), (''B'', [''i3''])],
           study_id = Some ''S1''\<rparr>,
          \<lparr>all_instances_ids = [''i1''],
           by_series = [(''A'', [''i1''])],
           study_id = Some ''S1''\<rparr>)"
    by code_simp
  from filter_instances_partition [OF k d, of keep_i1] run
  have "set (all_instances_ids \<lparr>all_instances_ids = [''i1''],
           by_series = [(''A'', [''i1''])],
           study_id = Some ''S1''\<rparr>) \<inter> set (all_instances_ids \<lparr>all_instances_ids = [''i2'', ''i3''],
           by_series = [(''A'', [''i2'']), (''B'', [''i3''])],
           study_id = Some ''S1''\<rparr>) = {} \<and>
       set (all_instances_ids \<lparr>all_instances_ids = [''i1''],
           by_series = [(''A'', [''i1''])],
           study_id = Some ''S1''\<rparr>) \<union> set (all_instances_ids \<lparr>all_instances_ids = [''i2'', ''i3''],
           by_series = [(''A'', [''i2'']), (''B'', [''i3''])],
           study_id = Some ''S1''\<rparr>)
         = set (all_instances_ids example_set) \<and>
       (\<forall>i \<in> set (all_instances_ids \<lparr>all_instances_ids = [''i2'', ''i3''],
           by_series = [(''A'', [''i2'']), (''B'', [''i3''])],
           study_id = Some ''S1''\<rparr>). \<forall>s. in_series \<lparr>all_instances_ids = [''i2'', ''i3''],
           by_series = [(''A'', [''i2'']), (''B'', [''i3''])],
           study_id = Some ''S1''\<rparr> s i = in_series example_set s i)"
    by blast
  then show ?thesis using k d wf run m by simp
qed

subsection \<open>C4: a predicate that keeps everything\<close>

text \<open>
  C4 as it is stated does not hold. \<open>filter_instances\<close> adds every series it visits
  to the returned collection, also with nothing to remove: with a predicate that is
  true everywhere the returned collection has no instance identifier but one entry,
  with the empty list, for each series of the original. And a series that has no
  instance before the call is dropped from the original, so \<open>by_series\<close> changes on
  a collection that records such a series.
\<close>

theorem filter_instances_keep_all_counterexample:
  "filter_instances keep_all example_set =
     Inr (\<lparr>all_instances_ids = [],
           by_series = [(''A'', []), (''B'', [])],
           study_id = Some ''S1''\<rparr>,
          example_set)
   \<and> series_ids \<lparr>all_instances_ids = [],
           by_series = [(''A'', []), (''B'', [])],
           study_id = Some ''S1''\<rparr> \<noteq> []
   \<and> filter_instances keep_all sparse_set =
     Inr (\<lparr>all_instances_ids = [],
           by_series = [(''A'', []), (''B'', [])],
           study_id = Some ''S1''\<rparr>,
          \<lparr>all_instances_ids = [''i1''],
           by_series = [(''A'', [''i1''])],
           study_id = Some ''S1''\<rparr>)
   \<and> by_series \<lparr>all_instances_ids = [''i1''],
           by_series = [(''A'', [''i1''])],
           study_id = Some ''S1''\<rparr> \<noteq> by_series sparse_set"
  by code_simp

text \<open>
  C4, amended. For every collection and every predicate that is true for every
  instance of the collection, \<open>filter_instances\<close> removes no instance:
  \<open>all_instances_ids\<close> of the collection is unchanged, \<open>by_series\<close> is unchanged
  except that the series without instances are dropped (so it is unchanged when every
  series has an instance), and the returned collection has no instance identifier and
  records every series of the original with the empty list.
\<close>

theorem filter_instances_keep_everything:
  assumes "distinct (series_ids self)"
    and "\<forall>e \<in> set (by_series self). \<forall>i \<in> set (snd e). flt i"
  shows "filter_instances flt self =
     Inr (\<lparr>all_instances_ids = [],
           by_series = map (\<lambda>s. (s, [])) (series_ids self),
           study_id = study_id self\<rparr>,
          self\<lparr>by_series := [e \<leftarrow> by_series self. snd e \<noteq> []]\<rparr>)
    \<and> ((\<forall>e \<in> set (by_series self). snd e \<noteq> []) \<longrightarrow>
         self\<lparr>by_series := [e \<leftarrow> by_series self. snd e \<noteq> []]\<rparr> = self)"
proof
  have keys: "distinct (dict_keys (by_series self))"
    using assms(1) by (simp add: series_ids_def)
  have none: "[i \<leftarrow> concat (map snd (by_series self)). \<not> flt i] = []"
    using assms(2) by (auto simp: filter_empty_conv)
  show "filter_instances flt self =
     Inr (\<lparr>all_instances_ids = [],
           by_series = map (\<lambda>s. (s, [])) (series_ids self),
           study_id = study_id self\<rparr>,
          self\<lparr>by_series := [e \<leftarrow> by_series self. snd e \<noteq> []]\<rparr>)"
    unfolding filter_instances_run [OF keys] none
    using assms(2)
    by (simp add: kept_items_true removed_items_true series_ids_def dict_keys_def)
  show "(\<forall>e \<in> set (by_series self). snd e \<noteq> []) \<longrightarrow>
         self\<lparr>by_series := [e \<leftarrow> by_series self. snd e \<noteq> []]\<rparr> = self"
    by (simp add: filter_id_conv)
qed

theorem filter_instances_keep_everything_witness:
  "distinct (series_ids example_set) \<and>
   by_series example_set = [(''A'', [''i1'', ''i2'']), (''B'', [''i3''])] \<and>
   keep_all ''i1'' \<and> keep_all ''i2'' \<and> keep_all ''i3'' \<and>
   filter_instances keep_all example_set =
     Inr (\<lparr>all_instances_ids = [],
           by_series = [(''A'', []), (''B'', [])],
           study_id = Some ''S1''\<rparr>,
          example_set)"
proof -
  have k: "distinct (series_ids example_set)" by code_simp
  have f: "\<forall>e \<in> set (by_series example_set). \<forall>i \<in> set (snd e). keep_all i" by code_simp
  have n: "\<forall>e \<in> set (by_series example_set). snd e \<noteq> []" by code_simp
  have s: "map (\<lambda>s. (s, [])) (series_ids example_set) = [(''A'', []), (''B'', [] :: string list)]"
    and t: "study_id example_set = Some ''S1''"
    by code_simp+
  from filter_instances_keep_everything [OF k f] n
  have "filter_instances keep_all example_set =
     Inr (\<lparr>all_instances_ids = [],
           by_series = map (\<lambda>s. (s, [])) (series_ids example_set),
           study_id = study_id example_set\<rparr>,
          example_set)"
    by simp
  moreover have "by_series example_set = [(''A'', [''i1'', ''i2'']), (''B'', [''i3''])]"
    by (simp add: example_set_def)
  moreover have "keep_all ''i1'' \<and> keep_all ''i2'' \<and> keep_all ''i3''"
    by (simp add: keep_all_def)
  ultimately show ?thesis using k by (simp add: s t)
qed

subsection \<open>C5: the invariant of a snapshot\<close>

text \<open>
  C5. For every snapshot built by \<open>from_study\<close>, when the series identifiers of the
  study are pairwise different and the instance identifiers that the server lists for
  them are too, the lengths of the lists of all series add up to the length of
  \<open>all_instances_ids\<close>, and every identifier of \<open>all_instances_ids\<close> is in the
  list of exactly one series. \<open>filter_instances\<close> preserves this invariant: on a
  collection of the data model that satisfies it, the call returns, and both the kept
  and the removed collection are collections of the data model that satisfy it.
\<close>

theorem snapshot_invariant_from_study_filter:
  "(from_study api sid sa = Inr c \<and> resolve_study api sid sa = Inr st \<and>
    distinct (info_series_ids st) \<and>
    distinct (concat (map (listed api) (info_series_ids st)))
      \<longrightarrow> well_formed c \<and> snapshot_invariant c)
   \<and> (well_formed c \<and> snapshot_invariant c
      \<longrightarrow> (\<exists>removed kept. filter_instances flt c = Inr (removed, kept) \<and>
            well_formed kept \<and> snapshot_invariant kept \<and>
            well_formed removed \<and> snapshot_invariant removed))"
proof (intro conjI impI)
  assume a: "from_study api sid sa = Inr c \<and> resolve_study api sid sa = Inr st \<and>
    distinct (info_series_ids st) \<and>
    distinct (concat (map (listed api) (info_series_ids st)))"
  let ?ss = "info_series_ids st"
  have c: "c = \<lparr>all_instances_ids = concat (map (listed api) ?ss),
              by_series = map (\<lambda>s. (s, listed api s)) ?ss,
              study_id = Some (orthanc_id st)\<rparr>"
    using a by (intro from_study_ok) auto
  have snd: "map snd (by_series c) = map (listed api) ?ss"
    by (simp add: c comp_def)
  show wf: "well_formed c"
    using a by (simp add: well_formed_def dict_keys_def c comp_def)
  have "\<forall>i \<in> set (all_instances_ids c). length (series_containing c i) = 1"
  proof
    fix i assume i: "i \<in> set (all_instances_ids c)"
    have "length [e \<leftarrow> by_series c. i \<in> set (snd e)] = 1"
    proof (rule distinct_concat_one_series)
      show "distinct (concat (map snd (by_series c)))" using a snd by simp
      show "i \<in> set (concat (map snd (by_series c)))" using i wf by (simp add: well_formed_def)
    qed
    then show "length (series_containing c i) = 1" by (simp add: series_containing_def)
  qed
  then show "snapshot_invariant c"
    using well_formed_series_total [OF wf] by (simp add: snapshot_invariant_def)
next
  assume b: "well_formed c \<and> snapshot_invariant c"
  then have wf: "well_formed c" and one: "\<forall>i \<in> set (all_instances_ids c). length (series_containing c i) = 1"
    by (simp_all add: snapshot_invariant_def)
  have k: "snapshot_invariant (kept_part flt c)"
    unfolding snapshot_invariant_def
  proof (intro conjI ballI)
    show "series_total (kept_part flt c) = length (all_instances_ids (kept_part flt c))"
      using wf by (intro well_formed_series_total well_formed_kept_part)
    fix i assume "i \<in> set (all_instances_ids (kept_part flt c))"
    then have "flt i" and "i \<in> set (all_instances_ids c)" by (simp_all add: kept_part_def)
    then show "length (series_containing (kept_part flt c) i) = 1"
      using one by (simp add: series_containing_kept)
  qed
  have r: "snapshot_invariant (removed_part flt c)"
    unfolding snapshot_invariant_def
  proof (intro conjI ballI)
    show "series_total (removed_part flt c) = length (all_instances_ids (removed_part flt c))"
      using wf by (intro well_formed_series_total well_formed_removed_part)
    fix i assume "i \<in> set (all_instances_ids (removed_part flt c))"
    then have "\<not> flt i" and "i \<in> set (all_instances_ids c)" by (simp_all add: removed_part_def)
    then show "length (series_containing (removed_part flt c) i) = 1"
      using one by (simp add: series_containing_removed)
  qed
  show "\<exists>removed kept. filter_instances flt c = Inr (removed, kept) \<and>
            well_formed kept \<and> snapshot_invariant kept \<and>
            well_formed removed \<and> snapshot_invariant removed"
    using filter_instances_ok [OF wf, of flt] k r wf
    by (auto intro: well_formed_kept_part well_formed_removed_part)
qed

theorem snapshot_invariant_from_study_filter_witness:
  "from_study example_api (Some ''S1'') None = Inr example_set \<and>
   resolve_study example_api (Some ''S1'') None = Inr example_study \<and>
   distinct (info_series_ids example_study) \<and>
   distinct (concat (map (listed example_api) (info_series_ids example_study))) \<and>
   well_formed example_set \<and> snapshot_invariant example_set \<and>
   (\<exists>removed kept. filter_instances keep_i1 example_set = Inr (removed, kept) \<and>
            well_formed kept \<and> snapshot_invariant kept \<and>
            well_formed removed \<and> snapshot_invariant removed)"
proof -
  have h: "from_study example_api (Some ''S1'') None = Inr example_set \<and>
   resolve_study example_api (Some ''S1'') None = Inr example_study \<and>
   distinct (info_series_ids example_study) \<and>
   distinct (concat (map (listed example_api) (info_series_ids example_study)))"
    by code_simp
  show ?thesis
    using h snapshot_invariant_from_study_filter
      [of example_api "Some ''S1''" None example_set example_study keep_i1]
    by blast
qed

subsection \<open>C6: the request of \<open>delete\<close>\<close>

text \<open>
  C6. For every collection, \<open>delete\<close> sends exactly one request, to
  \<open>tools/bulk-delete\<close>, whose list \<open>Resources\<close> is \<open>all_instances_ids\<close>; in a
  collection of the data model that is the instances of the series in the order in
  which the series were inserted, each series in its own order. For the snapshot with
  the series \<open>A\<close> of \<open>i1\<close>, \<open>i2\<close> and the series \<open>B\<close> of \<open>i3\<close> the request
  names \<open>i1\<close>, \<open>i2\<close>, \<open>i3\<close>.
\<close>

theorem delete_request:
  "fst (delete api self) =
     [\<lparr>endpoint = ''tools/bulk-delete'',
       json = [(''Resources'', JStrings (all_instances_ids self))]\<rparr>]
   \<and> (well_formed self \<longrightarrow>
        fst (delete api self) =
          [\<lparr>endpoint = ''tools/bulk-delete'',
            json = [(''Resources'', JStrings (concat (map snd (by_series self))))]\<rparr>])"
  by (simp add: delete_def instances_ids_def well_formed_def Let_def)

theorem delete_request_witness:
  "from_study example_api (Some ''S1'') None = Inr example_set \<and>
   well_formed example_set \<and>
   by_series example_set = [(''A'', [''i1'', ''i2'']), (''B'', [''i3''])] \<and>
   fst (delete example_api example_set) =
     [\<lparr>endpoint = ''tools/bulk-delete'',
       json = [(''Resources'', JStrings [''i1'', ''i2'', ''i3''])]\<rparr>]"
proof -
  have wf: "well_formed example_set" by code_simp
  have d: "by_series example_set = [(''A'', [''i1'', ''i2'']), (''B'', [''i3''])]"
    by (simp add: example_set_def)
  have "fst (delete example_api example_set) =
          [\<lparr>endpoint = ''tools/bulk-delete'',
            json = [(''Resources'', JStrings (concat (map snd (by_series example_set))))]\<rparr>]"
    using wf delete_request [of example_api example_set] by blast
  moreover have "from_study example_api (Some ''S1'') None = Inr example_set"
    by code_simp
  ultimately show ?thesis using wf d by simp
qed

subsection \<open>C7: a series that loses all its instances\<close>

text \<open>
  C7. For every collection and predicate, if the predicate is false for every instance
  of a series, so that \<open>filter_instances\<close> removes all of them, then whenever the
  call returns the entry of that series is no longer in \<open>by_series\<close> of the
  collection, and the returned collection records the series with the instances
  removed from it; and the call returns on every collection of the data model.
\<close>

theorem filter_instances_emptied_series:
  assumes "distinct (series_ids self)" and "dict_getitem (by_series self) s = Inr xs"
    and "\<forall>i \<in> set xs. \<not> flt i"
  shows "(well_formed self \<longrightarrow> (\<exists>removed kept. filter_instances flt self = Inr (removed, kept))) \<and>
    (\<forall>removed kept. filter_instances flt self = Inr (removed, kept) \<longrightarrow>
       \<not> dict_contains (by_series kept) s \<and>
       dict_getitem (by_series removed) s = Inr xs)"
proof (intro conjI impI allI)
  assume "well_formed self"
  then show "\<exists>removed kept. filter_instances flt self = Inr (removed, kept)"
    by (simp add: filter_instances_ok)
next
  fix removed kept
  assume run: "filter_instances flt self = Inr (removed, kept)"
  have keys: "distinct (dict_keys (by_series self))"
    using assms(1) by (simp add: series_ids_def)
  from run have removed: "by_series removed = removed_items flt (by_series self)"
    and kept: "by_series kept = [e \<leftarrow> kept_items flt (by_series self). snd e \<noteq> []]"
    unfolding filter_instances_run [OF keys] by (auto split: sum.splits)
  have mem: "(s, xs) \<in> set (by_series self)"
    using assms(2) by (rule dict_getitem_mem)
  have none: "filter flt xs = []" and all: "[i \<leftarrow> xs. \<not> flt i] = xs"
    using assms(3) by (simp_all add: filter_empty_conv filter_id_conv)
  show "\<not> dict_contains (by_series kept) s"
  proof
    assume "dict_contains (by_series kept) s"
    then obtain ys where ys: "(s, ys) \<in> set (by_series self)" and "filter flt ys \<noteq> []"
      by (auto simp: dict_contains_def dict_keys_def kept kept_items_def)
    moreover have "ys = xs"
      using keys mem ys by (metis dict_keys_def eq_key_imp_eq_value)
    ultimately show False using none by simp
  qed
  show "dict_getitem (by_series removed) s = Inr xs"
    using assms(2) all by (simp add: removed removed_items_def dict_getitem_map_values)
qed

theorem filter_instances_emptied_series_witness:
  "distinct (series_ids example_set) \<and>
   dict_getitem (by_series example_set) ''B'' = Inr [''i3''] \<and>
   \<not> keep_i1 ''i3'' \<and> well_formed example_set \<and>
   filter_instances keep_i1 example_set =
     Inr (\<lparr>all_instances_ids = [''i2'', ''i3''],
           by_series = [(''A'', [''i2'']), (''B'', [''i3''])],
           study_id = Some ''S1''\<rparr>,
          \<lparr>all_instances_ids = [''i1''],
           by_series = [(''A'', [''i1''])],
           study_id = Some ''S1''\<rparr>) \<and>
   \<not> dict_contains [(''A'', [''i1''])] ''B'' \<and>
   dict_getitem [(''A'', [''i2'']), (''B'', [''i3''])] ''B'' = Inr [''i3'']"
proof -
  have k: "distinct (series_ids example_set)" by code_simp
  have g: "dict_getitem (by_series example_set) ''B'' = Inr [''i3'']" by code_simp
  have f: "\<forall>i \<in> set [''i3'']. \<not> keep_i1 i" by code_simp
  have wf: "well_formed example_set" by code_simp
  have run: "filter_instances keep_i1 example_set =
     Inr (\<lparr>all_instances_ids = [''i2'', ''i3''],
           by_series = [(''A'', [''i2'']), (''B'', [''i3''])],
           study_id = Some ''S1''\<rparr>,
          \<lparr>all_instances_ids = [''i1''],
           by_series = [(''A'', [''i1''])],
           study_id = Some ''S1''\<rparr>)"
    by code_simp
  from filter_instances_emptied_series [OF k g f] run
  have "\<not> dict_contains (by_series \<lparr>all_instances_ids = [''i1''],
           by_series = [(''A'', [''i1''])],
           study_id = Some ''S1''\<rparr>) ''B'' \<and>
       dict_getitem (by_series \<lparr>all_instances_ids = [''i2'', ''i3''],
           by_series = [(''A'', [''i2'']), (''B'', [''i3''])],
           study_id = Some ''S1''\<rparr>) ''B'' = Inr [''i3'']"
    by blast
  then show ?thesis using k g f wf run by simp
qed

subsection \<open>C8: the accessors\<close>

text \<open>
  C8. The accessors \<open>instances_ids\<close>, \<open>series_ids\<close> and \<open>get_instances_ids\<close> read
  the snapshot held in memory: they are functions of the collection alone, with no
  access to the client, and their values are the field \<open>all_instances_ids\<close>, the
  keys of \<open>by_series\<close> and the list stored for the series. \<open>get_instances_ids\<close>
  never raises, and it returns the empty list for a series that is not in the
  snapshot.
\<close>

theorem accessors_read_snapshot:
  "instances_ids self = all_instances_ids self \<and>
   series_ids self = map fst (by_series self) \<and>
   (\<exists>xs. get_instances_ids self series_id = Inr xs) \<and>
   (series_id \<notin> set (series_ids self) \<longrightarrow> get_instances_ids self series_id = Inr []) \<and>
   (series_id \<in> set (series_ids self) \<longrightarrow>
      get_instances_ids self series_id = dict_getitem (by_series self) series_id)"
  using dict_getitem_present [of series_id "by_series self"]
  by (auto simp: instances_ids_def series_ids_def get_instances_ids_def dict_contains_def
      dict_keys_def)

theorem accessors_read_snapshot_witness:
  "''Z'' \<notin> set (series_ids example_set) \<and> get_instances_ids example_set ''Z'' = Inr [] \<and>
   ''A'' \<in> set (series_ids example_set) \<and>
   get_instances_ids example_set ''A'' = Inr [''i1'', ''i2''] \<and>
   instances_ids example_set = [''i1'', ''i2'', ''i3''] \<and>
   series_ids example_set = [''A'', ''B'']"
proof -
  have z: "''Z'' \<notin> set (series_ids example_set)" by code_simp
  have a: "''A'' \<in> set (series_ids example_set)" by code_simp
  have g: "dict_getitem (by_series example_set) ''A'' = Inr [''i1'', ''i2'']" by code_simp
  have v: "all_instances_ids example_set = [''i1'', ''i2'', ''i3'']"
    and k: "map fst (by_series example_set) = [''A'', ''B'']"
    by (simp_all add: example_set_def)
  show ?thesis
    using z a g v k accessors_read_snapshot [of example_set "''Z''"]
      accessors_read_snapshot [of example_set "''A''"]
    by simp
qed

subsection \<open>C9: \<open>process_instances\<close>\<close>

text \<open>
  C9. \<open>process_instances\<close> invokes the processor once for each entry of
  \<open>all_instances_ids\<close>, one after the other and in that order, which in a
  collection of the data model is the order of the series and then of the instances
  in each series: when every invocation succeeds, the list of the invocations is
  \<open>all_instances_ids\<close>. If an invocation raises, the call raises the same exception
  at once: when the processor succeeds on the instances before an instance and raises
  on it, the call raises that exception, and the processor has been invoked on the
  instances before it and on it, and on no instance after it. Conversely a call that
  returns has invoked the processor on all of \<open>all_instances_ids\<close>, and a call
  that raises has stopped at such a first failing invocation.
\<close>

theorem process_instances_order:
  "snd (process_instances processor self w) = after_all processor (all_instances_ids self) w \<and>
   (\<forall>w'. after_all processor (all_instances_ids self) w = Inr w' \<longrightarrow>
      process_instances processor self w = (all_instances_ids self, Inr w')) \<and>
   (\<forall>before i rest w1 e.
      all_instances_ids self = before @ i # rest \<and>
      after_all processor before w = Inr w1 \<and> processor i w1 = Inl e \<longrightarrow>
      process_instances processor self w = (before @ [i], Inl e)) \<and>
   (\<forall>invoked outcome. process_instances processor self w = (invoked, outcome) \<longrightarrow>
      (\<forall>w'. outcome = Inr w' \<longrightarrow>
            invoked = all_instances_ids self \<and>
            (well_formed self \<longrightarrow> invoked = concat (map snd (by_series self)))) \<and>
      (\<forall>e. outcome = Inl e \<longrightarrow>
            (\<exists>before i rest w1.
               all_instances_ids self = before @ i # rest \<and> invoked = before @ [i] \<and>
               process_loop processor before w = (before, Inr w1) \<and>
               after_all processor before w = Inr w1 \<and>
               processor i w1 = Inl e)))"
proof (intro conjI allI impI)
  show "snd (process_instances processor self w) = after_all processor (all_instances_ids self) w"
    by (simp add: process_instances_def process_loop_outcome)
next
  fix w' assume "after_all processor (all_instances_ids self) w = Inr w'"
  then show "process_instances processor self w = (all_instances_ids self, Inr w')"
    by (simp add: process_instances_def process_loop_all)
next
  fix before i rest w1 e
  assume "all_instances_ids self = before @ i # rest \<and>
      after_all processor before w = Inr w1 \<and> processor i w1 = Inl e"
  then show "process_instances processor self w = (before @ [i], Inl e)"
    by (simp add: process_instances_def process_loop_stops)
next
  fix invoked outcome w'
  assume "process_instances processor self w = (invoked, outcome)" and "outcome = Inr w'"
  then show "invoked = all_instances_ids self"
    using process_loop_success [of processor "all_instances_ids self" w invoked w']
    by (simp add: process_instances_def)
next
  fix invoked outcome w'
  assume "process_instances processor self w = (invoked, outcome)" and "outcome = Inr w'"
    and "well_formed self"
  then show "invoked = concat (map snd (by_series self))"
    using process_loop_success [of processor "all_instances_ids self" w invoked w']
    by (simp add: process_instances_def well_formed_def)
next
  fix invoked outcome e
  assume run: "process_instances processor self w = (invoked, outcome)" and "outcome = Inl e"
  then have "process_loop processor (all_instances_ids self) w = (invoked, Inl e)"
    by (simp add: process_instances_def)
  from process_loop_failure [OF this] obtain before i rest w1 where
    d: "all_instances_ids self = before @ i # rest" "invoked = before @ [i]"
       "process_loop processor before w = (before, Inr w1)" "processor i w1 = Inl e"
    by blast
  from d(3) have "after_all processor before w = Inr w1"
    using process_loop_outcome [of processor before w] by simp
  with d show "\<exists>before i rest w1.
               all_instances_ids self = before @ i # rest \<and> invoked = before @ [i] \<and>
               process_loop processor before w = (before, Inr w1) \<and>
               after_all processor before w = Inr w1 \<and>
               processor i w1 = Inl e"
    by blast
qed

theorem process_instances_order_witness:
  "after_all logging_processor (all_instances_ids example_set) [] = Inr [''i1'', ''i2'', ''i3''] \<and>
   process_instances logging_processor example_set [] =
     (all_instances_ids example_set, Inr [''i1'', ''i2'', ''i3'']) \<and>
   all_instances_ids example_set = [''i1'', ''i2'', ''i3''] \<and>
   all_instances_ids example_set = [''i1''] @ ''i2'' # [''i3''] \<and>
   after_all failing_processor [''i1''] [] = Inr [''i1''] \<and>
   failing_processor ''i2'' [''i1''] = Inl (Failure ''i2'') \<and>
   process_instances failing_processor example_set [] = ([''i1''] @ [''i2''], Inl (Failure ''i2'')) \<and>
   snd (process_instances failing_processor example_set [])
     = after_all failing_processor (all_instances_ids example_set) [] \<and>
   (\<exists>before i rest w1.
       all_instances_ids example_set = before @ i # rest \<and> [''i1''] @ [''i2''] = before @ [i] \<and>
       process_loop failing_processor before [] = (before, Inr w1) \<and>
       after_all failing_processor before [] = Inr w1 \<and>
       failing_processor i w1 = Inl (Failure ''i2''))"
proof -
  have a: "after_all logging_processor (all_instances_ids example_set) []
             = Inr [''i1'', ''i2'', ''i3'']" by code_simp
  have v: "all_instances_ids example_set = [''i1'', ''i2'', ''i3'']" by code_simp
  have s: "all_instances_ids example_set = [''i1''] @ ''i2'' # [''i3'']" by code_simp
  have p: "after_all failing_processor [''i1''] [] = Inr [''i1'']" by code_simp
  have f: "failing_processor ''i2'' [''i1''] = Inl (Failure ''i2'')" by code_simp
  note t1 = process_instances_order [of logging_processor example_set "[]"]
  note t2 = process_instances_order [of failing_processor example_set "[]"]
  have ok: "process_instances logging_processor example_set [] =
     (all_instances_ids example_set, Inr [''i1'', ''i2'', ''i3''])"
    using t1 a by blast
  have ko: "process_instances failing_processor example_set [] =
     ([''i1''] @ [''i2''], Inl (Failure ''i2''))"
    using t2 s p f by blast
  have out: "snd (process_instances failing_processor example_set [])
     = after_all failing_processor (all_instances_ids example_set) []"
    using t2 by blast
  have bw: "\<exists>before i rest w1.
       all_instances_ids example_set = before @ i # rest \<and> [''i1''] @ [''i2''] = before @ [i] \<and>
       process_loop failing_processor before [] = (before, Inr w1) \<and>
       after_all failing_processor before [] = Inr w1 \<and>
       failing_processor i w1 = Inl (Failure ''i2'')"
    using t2 ko by blast
  show ?thesis using a ok v s p f ko out bw by blast
qed

subsection \<open>C10: the study of the removed instances\<close>

text \<open>
  C10. For every collection and every predicate, the collection of removed instances
  that \<open>filter_instances\<close> returns has the \<open>study_id\<close> of the collection it was
  filtered from.
\<close>

theorem filter_instances_study_id:
  "filter_instances flt self = Inr (filtered, self') \<Longrightarrow> study_id filtered = study_id self"
  by (auto simp: filter_instances_def InstancesSet_def split: sum.splits prod.splits
      dest!: filter_loop_study_id)

theorem filter_instances_study_id_witness:
  "filter_instances keep_i1 example_set =
     Inr (\<lparr>all_instances_ids = [''i2'', ''i3''],
           by_series = [(''A'', [''i2'']), (''B'', [''i3''])],
           study_id = Some ''S1''\<rparr>,
          \<lparr>all_instances_ids = [''i1''],
           by_series = [(''A'', [''i1''])],
           study_id = Some ''S1''\<rparr>)
   \<and> study_id \<lparr>all_instances_ids = [''i2'', ''i3''],
           by_series = [(''A'', [''i2'']), (''B'', [''i3''])],
           study_id = Some ''S1''\<rparr> = study_id example_set"
proof -
  have run: "filter_instances keep_i1 example_set =
     Inr (\<lparr>all_instances_ids = [''i2'', ''i3''],
           by_series = [(''A'', [''i2'']), (''B'', [''i3''])],
           study_id = Some ''S1''\<rparr>,
          \<lparr>all_instances_ids = [''i1''],
           by_series = [(''A'', [''i1''])],
           study_id = Some ''S1''\<rparr>)"
    by code_simp
  show ?thesis using run filter_instances_study_id [OF run] by simp
qed

end
